theory Spec2Isabelle
  imports Main "HOL-Library.Word"
begin

section \<open>ECMAScript strings\<close>

text \<open>
  A TypeScript string is a sequence of UTF-16 code units. String literals of the source
  that are plain ASCII are written \<open>js ''...''\<close>; a character outside ASCII is written
  as its code unit (the degree sign of the source is \<open>0xB0\<close>).
\<close>

type_synonym code_unit = "16 word"
type_synonym jsstring = "code_unit list"

definition js :: "string \<Rightarrow> jsstring" where
  "js s = map (\<lambda>c. of_nat (of_char c)) s"

text \<open>Surrogates, and the code point of a surrogate pair.\<close>

definition is_high_surrogate :: "code_unit \<Rightarrow> bool" where
  "is_high_surrogate c = (0xD800 \<le> c \<and> c \<le> 0xDBFF)"

definition is_low_surrogate :: "code_unit \<Rightarrow> bool" where
  "is_low_surrogate c = (0xDC00 \<le> c \<and> c \<le> 0xDFFF)"

definition is_surrogate :: "code_unit \<Rightarrow> bool" where
  "is_surrogate c = (0xD800 \<le> c \<and> c \<le> 0xDFFF)"

definition pair_code_point :: "code_unit \<Rightarrow> code_unit \<Rightarrow> nat" where
  "pair_code_point hi lo = 0x10000 + (unat hi - 0xD800) * 0x400 + (unat lo - 0xDC00)"

text \<open>
  The string iterator behind \<open>Array.from(str)\<close>: one element per code point, a
  surrogate pair staying together, an unpaired surrogate standing alone.
\<close>

fun array_from :: "jsstring \<Rightarrow> jsstring list" where
  "array_from [] = []"
| "array_from [c] = [[c]]"
| "array_from (c1 # c2 # cs) =
     (if is_high_surrogate c1 \<and> is_low_surrogate c2
      then [c1, c2] # array_from cs
      else [c1] # array_from (c2 # cs))"

text \<open>\<open>s.charCodeAt(i)\<close>: the code unit at \<open>i\<close>, and NaN (here \<open>None\<close>) out of range.\<close>

definition charCodeAt :: "jsstring \<Rightarrow> nat \<Rightarrow> nat option" where
  "charCodeAt s i = (if i < length s then Some (unat (s ! i)) else None)"

text \<open>\<open>padStart\<close> and \<open>padEnd\<close> with a fill string of one code unit; a string that
  already has the target length or more is returned as it is.\<close>

definition padStart :: "nat \<Rightarrow> code_unit \<Rightarrow> jsstring \<Rightarrow> jsstring" where
  "padStart n fill s = replicate (n - length s) fill @ s"

definition padEnd :: "nat \<Rightarrow> code_unit \<Rightarrow> jsstring \<Rightarrow> jsstring" where
  "padEnd n fill s = s @ replicate (n - length s) fill"

text \<open>\<open>s.replace(pat, rep)\<close> with a string pattern: the first occurrence only,
  wherever it stands.\<close>

fun replace_first :: "jsstring \<Rightarrow> jsstring \<Rightarrow> jsstring \<Rightarrow> jsstring" where
  "replace_first pat rep [] = (if pat = [] then rep else [])"
| "replace_first pat rep (c # cs) =
     (if take (length pat) (c # cs) = pat then rep @ drop (length pat) (c # cs)
      else c # replace_first pat rep cs)"

section \<open>Numbers to text\<close>

definition hex_digit_lower :: "nat \<Rightarrow> code_unit" where
  "hex_digit_lower d = (if d < 10 then of_nat (48 + d) else of_nat (87 + d))"

definition hex_digit_upper :: "nat \<Rightarrow> code_unit" where
  "hex_digit_upper d = (if d < 10 then of_nat (48 + d) else of_nat (55 + d))"

text \<open>\<open>n.toString(16)\<close> for a non-negative integer \<open>n\<close>.\<close>

fun nat_toString16 :: "nat \<Rightarrow> jsstring" where
  "nat_toString16 n =
     (if n < 16 then [hex_digit_lower n]
      else nat_toString16 (n div 16) @ [hex_digit_lower (n mod 16)])"

text \<open>\<open>x.toString(16)\<close> where \<open>x\<close> is a char code: NaN prints as \<open>NaN\<close>.\<close>

definition charCode_toString16 :: "nat option \<Rightarrow> jsstring" where
  "charCode_toString16 x = (case x of None \<Rightarrow> js ''NaN'' | Some n \<Rightarrow> nat_toString16 n)"

text \<open>
  \<open>(len / 2).toString(16)\<close> for a string length \<open>len\<close>: the division is the
  floating-point one, so an odd length gives a number ending in one half, which prints
  in base 16 with the fraction \<open>.8\<close>. Lengths stay below \<open>2 ^ 53\<close>, where the
  quotient is exact.
\<close>

definition half_toString16 :: "nat \<Rightarrow> jsstring" where
  "half_toString16 len =
     nat_toString16 (len div 2) @ (if odd len then js ''.8'' else [])"

text \<open>\<open>Math.ceil(len / 64) * 64\<close> on a string length.\<close>

definition ceil_div :: "nat \<Rightarrow> nat \<Rightarrow> nat" where
  "ceil_div a b = (a + (b - 1)) div b"

section \<open>UTF-8\<close>

text \<open>The octets of one code point.\<close>

definition utf8_octets :: "nat \<Rightarrow> nat list" where
  "utf8_octets cp =
     (if cp < 0x80 then [cp]
      else if cp < 0x800 then [0xC0 + cp div 0x40, 0x80 + cp mod 0x40]
      else if cp < 0x10000
        then [0xE0 + cp div 0x1000, 0x80 + (cp div 0x40) mod 0x40, 0x80 + cp mod 0x40]
      else [0xF0 + cp div 0x40000, 0x80 + (cp div 0x1000) mod 0x40,
            0x80 + (cp div 0x40) mod 0x40, 0x80 + cp mod 0x40])"

text \<open>
  The UTF-8 encoding of a string, as \<open>TextEncoder\<close> computes it: a surrogate pair is
  one code point, an unpaired surrogate is replaced by U+FFFD.
\<close>

fun utf8_encode :: "jsstring \<Rightarrow> nat list" where
  "utf8_encode [] = []"
| "utf8_encode [c] = utf8_octets (if is_surrogate c then 0xFFFD else unat c)"
| "utf8_encode (c1 # c2 # cs) =
     (if is_high_surrogate c1 \<and> is_low_surrogate c2
      then utf8_octets (pair_code_point c1 c2) @ utf8_encode cs
      else utf8_octets (if is_surrogate c1 then 0xFFFD else unat c1) @ utf8_encode (c2 # cs))"

definition utf8_length :: "jsstring \<Rightarrow> nat" where
  "utf8_length s = length (utf8_encode s)"

text \<open>A string is well formed when it has no unpaired surrogate.\<close>

fun well_formed :: "jsstring \<Rightarrow> bool" where
  "well_formed [] = True"
| "well_formed [c] = (\<not> is_surrogate c)"
| "well_formed (c1 # c2 # cs) =
     (if is_high_surrogate c1 \<and> is_low_surrogate c2 then well_formed cs
      else \<not> is_surrogate c1 \<and> well_formed (c2 # cs))"

section \<open>The call encoder\<close>

text \<open>
  \<open>encodeMintCall(to, tokenURI)\<close> of the weather generator component: the selector,
  the padded address, the offset word, the length word and the padded data, as one
  hex text.
\<close>

definition selector :: jsstring where
  "selector = js ''0x40c10f19''"

definition offset_word :: jsstring where
  "offset_word = js ''0000000000000000000000000000000000000000000000000000000000000040''"

definition tokenURIHex :: "jsstring \<Rightarrow> jsstring" where
  "tokenURIHex tokenURI =
     concat (map (\<lambda>c. padStart 2 0x30 (charCode_toString16 (charCodeAt c 0)))
                 (array_from tokenURI))"

definition encodeMintCall :: "jsstring \<Rightarrow> jsstring \<Rightarrow> jsstring" where
  "encodeMintCall to tokenURI =
     (let toPadded = padStart 64 0x30 (replace_first (js ''0x'') [] to);
          hex = tokenURIHex tokenURI;
          lenPadded = padStart 64 0x30 (half_toString16 (length hex))
      in selector @ toPadded @ offset_word @ lenPadded
           @ padEnd (ceil_div (length hex) 64 * 64) 0x30 hex)"

text \<open>Reading a hex text as a big-endian integer; \<open>None\<close> when a character is not a
  hex digit.\<close>

definition hex_digit_value :: "code_unit \<Rightarrow> nat option" where
  "hex_digit_value c =
     (if 0x30 \<le> c \<and> c \<le> 0x39 then Some (unat c - 0x30)
      else if 0x61 \<le> c \<and> c \<le> 0x66 then Some (unat c - 0x57)
      else if 0x41 \<le> c \<and> c \<le> 0x46 then Some (unat c - 0x37)
      else None)"

fun hex_value_from :: "nat \<Rightarrow> jsstring \<Rightarrow> nat option" where
  "hex_value_from acc [] = Some acc"
| "hex_value_from acc (c # cs) =
     (case hex_digit_value c of
        None \<Rightarrow> None
      | Some d \<Rightarrow> hex_value_from (16 * acc + d) cs)"

definition hex_value :: "jsstring \<Rightarrow> nat option" where
  "hex_value s = hex_value_from 0 s"

text \<open>
  The length word of an encoded call: the 64 hex characters after the \<open>0x\<close> prefix, the
  8 characters of the selector and the two words of the address and the offset.
\<close>

definition length_word :: "jsstring \<Rightarrow> jsstring" where
  "length_word call = take 64 (drop (2 + 8 + 64 + 64) call)"

definition is_ascii :: "jsstring \<Rightarrow> bool" where
  "is_ascii s = list_all (\<lambda>c. c < 0x80) s"

section \<open>The metadata builder\<close>

text \<open>
  The weather observation as the component reads it: \<open>weather.name\<close>,
  \<open>weather.weather[0].description\<close> and \<open>weather.main.temp\<close>. The strings are
  strings; the temperature is a number of a type \<open>'n\<close> that the model leaves open,
  its conversion to text (the template literal's) being a parameter.
\<close>

record 'n observation =
  obs_name :: jsstring
  obs_weather :: "jsstring list" \<comment> \<open>the \<open>description\<close> of each entry of \<open>weather\<close>\<close>
  obs_main_temp :: 'n

record attribute =
  trait_type :: jsstring
  trait_value :: jsstring \<comment> \<open>the field \<open>value\<close>\<close>

record metadata =
  name :: jsstring
  description :: jsstring
  attributes :: "attribute list"

datatype js_error = JsError (message: jsstring)

text \<open>Reading \<open>weather.weather[0].description\<close> when \<open>weather\<close> is empty raises a
  TypeError.\<close>

definition TypeError :: js_error where
  "TypeError = JsError (js ''Cannot read properties of undefined (reading 'description')'')"

definition degree_C :: jsstring where
  "degree_C = [0xB0, 0x43]"

definition build_metadata ::
  "('n \<Rightarrow> jsstring) \<Rightarrow> jsstring \<Rightarrow> 'n observation \<Rightarrow> js_error + metadata" where
  "build_metadata number_text now obs =
     (case obs_weather obs of
        [] \<Rightarrow> Inl TypeError
      | condition # _ \<Rightarrow>
          Inr \<lparr> name = js ''Weather in '' @ obs_name obs,
                description = js ''Forecast for '' @ obs_name obs @ js '': '' @ condition
                  @ js '', '' @ number_text (obs_main_temp obs) @ degree_C,
                attributes =
                  [\<lparr> trait_type = js ''City'', trait_value = obs_name obs \<rparr>,
                   \<lparr> trait_type = js ''Temperature'',
                     trait_value = number_text (obs_main_temp obs) @ degree_C \<rparr>,
                   \<lparr> trait_type = js ''Condition'', trait_value = condition \<rparr>,
                   \<lparr> trait_type = js ''Date'', trait_value = now \<rparr>] \<rparr>)"

section \<open>The URI encoder\<close>

subsection \<open>\<open>JSON.stringify\<close>\<close>

text \<open>A JSON document: an object is the list of its members, in order.\<close>

datatype json =
    JNull
  | JBool bool
  | JString jsstring
  | JArray "json list"
  | JObject "(jsstring \<times> json) list"

text \<open>The object the component builds from the metadata.\<close>

definition attribute_json :: "attribute \<Rightarrow> json" where
  "attribute_json a =
     JObject [(js ''trait_type'', JString (trait_type a)), (js ''value'', JString (trait_value a))]"

definition metadata_json :: "metadata \<Rightarrow> json" where
  "metadata_json m =
     JObject [(js ''name'', JString (name m)),
              (js ''description'', JString (description m)),
              (js ''attributes'', JArray (map attribute_json (attributes m)))]"

definition unicode_escape :: "code_unit \<Rightarrow> jsstring" where
  "unicode_escape c =
     [0x5C, 0x75, hex_digit_lower (unat c div 0x1000), hex_digit_lower (unat c div 0x100 mod 0x10),
      hex_digit_lower (unat c div 0x10 mod 0x10), hex_digit_lower (unat c mod 0x10)]"

text \<open>
  One code unit inside a JSON string: the short escapes, \<open>\u\<close> escapes for the other
  control characters and for a surrogate (which is unpaired when it gets here), and
  everything else as it is.
\<close>

definition quote_unit :: "code_unit \<Rightarrow> jsstring" where
  "quote_unit c =
     (if c = 0x08 then [0x5C, 0x62]
      else if c = 0x09 then [0x5C, 0x74]
      else if c = 0x0A then [0x5C, 0x6E]
      else if c = 0x0C then [0x5C, 0x66]
      else if c = 0x0D then [0x5C, 0x72]
      else if c = 0x22 then [0x5C, 0x22]
      else if c = 0x5C then [0x5C, 0x5C]
      else if c < 0x20 \<or> is_surrogate c then unicode_escape c
      else [c])"

fun quote_chars :: "jsstring \<Rightarrow> jsstring" where
  "quote_chars [] = []"
| "quote_chars [c] = quote_unit c"
| "quote_chars (c1 # c2 # cs) =
     (if is_high_surrogate c1 \<and> is_low_surrogate c2
      then c1 # c2 # quote_chars cs
      else quote_unit c1 @ quote_chars (c2 # cs))"

definition QuoteJSONString :: "jsstring \<Rightarrow> jsstring" where
  "QuoteJSONString s = 0x22 # quote_chars s @ [0x22]"

fun join_comma :: "jsstring list \<Rightarrow> jsstring" where
  "join_comma [] = []"
| "join_comma [x] = x"
| "join_comma (x # y # zs) = x @ 0x2C # join_comma (y # zs)"

fun JSON_stringify :: "json \<Rightarrow> jsstring" where
  "JSON_stringify JNull = js ''null''"
| "JSON_stringify (JBool b) = (if b then js ''true'' else js ''false'')"
| "JSON_stringify (JString s) = QuoteJSONString s"
| "JSON_stringify (JArray vs) = 0x5B # join_comma (map JSON_stringify vs) @ [0x5D]"
| "JSON_stringify (JObject ms) =
     0x7B # join_comma (map (\<lambda>kv. QuoteJSONString (fst kv) @ 0x3A # JSON_stringify (snd kv)) ms)
       @ [0x7D]"

subsection \<open>\<open>encodeURIComponent\<close> and the replacement of the percent escapes\<close>

definition URIError :: js_error where
  "URIError = JsError (js ''URI malformed'')"

definition uri_unreserved :: "code_unit \<Rightarrow> bool" where
  "uri_unreserved c =
     ((0x41 \<le> c \<and> c \<le> 0x5A) \<or> (0x61 \<le> c \<and> c \<le> 0x7A) \<or> (0x30 \<le> c \<and> c \<le> 0x39)
      \<or> c \<in> set (js ''-_.!~*'()''))"

definition percent_octet :: "nat \<Rightarrow> jsstring" where
  "percent_octet b = [0x25, hex_digit_upper (b div 0x10), hex_digit_upper (b mod 0x10)]"

definition percent_octets :: "nat list \<Rightarrow> jsstring" where
  "percent_octets bs = concat (map percent_octet bs)"

definition prepend :: "jsstring \<Rightarrow> js_error + jsstring \<Rightarrow> js_error + jsstring" where
  "prepend p r = (case r of Inl e \<Rightarrow> Inl e | Inr s \<Rightarrow> Inr (p @ s))"

fun encodeURIComponent :: "jsstring \<Rightarrow> js_error + jsstring" where
  "encodeURIComponent [] = Inr []"
| "encodeURIComponent [c] =
     (if uri_unreserved c then Inr [c]
      else if is_surrogate c then Inl URIError
      else Inr (percent_octets (utf8_octets (unat c))))"
| "encodeURIComponent (c1 # c2 # cs) =
     (if uri_unreserved c1 then prepend [c1] (encodeURIComponent (c2 # cs))
      else if is_high_surrogate c1 \<and> is_low_surrogate c2
        then prepend (percent_octets (utf8_octets (pair_code_point c1 c2))) (encodeURIComponent cs)
      else if is_surrogate c1 then Inl URIError
      else prepend (percent_octets (utf8_octets (unat c1))) (encodeURIComponent (c2 # cs)))"

definition is_upper_hex :: "code_unit \<Rightarrow> bool" where
  "is_upper_hex c = ((0x30 \<le> c \<and> c \<le> 0x39) \<or> (0x41 \<le> c \<and> c \<le> 0x46))"

definition upper_hex_value :: "code_unit \<Rightarrow> nat" where
  "upper_hex_value c = (if c \<le> 0x39 then unat c - 0x30 else unat c - 0x37)"

text \<open>
  \<open>.replace(/%([0-9A-F]{2})/g, (_, p1) => String.fromCharCode(parseInt(p1, 16)))\<close>:
  the matches are found from left to right and do not overlap.
\<close>

fun replace_percent :: "jsstring \<Rightarrow> jsstring" where
  "replace_percent (c # h1 # h2 # cs) =
     (if c = 0x25 \<and> is_upper_hex h1 \<and> is_upper_hex h2
      then of_nat (upper_hex_value h1 * 16 + upper_hex_value h2) # replace_percent cs
      else c # replace_percent (h1 # h2 # cs))"
| "replace_percent cs = cs"

subsection \<open>\<open>btoa\<close>\<close>

definition InvalidCharacterError :: js_error where
  "InvalidCharacterError =
     JsError (js ''The string to be encoded contains characters outside of the Latin1 range.'')"

definition base64_alphabet :: jsstring where
  "base64_alphabet = js ''ABCDEFGHIJKLMNOPQRSTUVWXYZabcdefghijklmnopqrstuvwxyz0123456789+/''"

definition base64_char :: "nat \<Rightarrow> code_unit" where
  "base64_char i = base64_alphabet ! (i mod 64)"

fun base64_encode :: "nat list \<Rightarrow> jsstring" where
  "base64_encode (a # b # c # bs) =
     [base64_char (a div 4), base64_char (a mod 4 * 16 + b div 16),
      base64_char (b mod 16 * 4 + c div 64), base64_char (c mod 64)] @ base64_encode bs"
| "base64_encode [a, b] =
     [base64_char (a div 4), base64_char (a mod 4 * 16 + b div 16),
      base64_char (b mod 16 * 4), 0x3D]"
| "base64_encode [a] = [base64_char (a div 4), base64_char (a mod 4 * 16), 0x3D, 0x3D]"
| "base64_encode [] = []"

definition btoa :: "jsstring \<Rightarrow> js_error + jsstring" where
  "btoa s =
     (if list_all (\<lambda>c. c \<le> 0xFF) s then Inr (base64_encode (map unat s))
      else Inl InvalidCharacterError)"

subsection \<open>The token URI\<close>

definition data_uri_prefix :: jsstring where
  "data_uri_prefix = js ''data:application/json;base64,''"

definition encodeTokenURI :: "metadata \<Rightarrow> js_error + jsstring" where
  "encodeTokenURI m =
     (let jsonStr = JSON_stringify (metadata_json m) in
      case encodeURIComponent jsonStr of
        Inl e \<Rightarrow> Inl e
      | Inr escaped \<Rightarrow>
          (case btoa (replace_percent escaped) of
             Inl e \<Rightarrow> Inl e
           | Inr b64 \<Rightarrow> Inr (data_uri_prefix @ b64)))"

section \<open>Reading a token URI back\<close>

text \<open>
  The reader of a token URI is not part of the component: it is whoever resolves the
  URI. It is modelled by the standard inverses of the three encoding steps: base64
  decoding of the payload (\<open>atob\<close>, on padded input), strict UTF-8 decoding, and
  \<open>JSON.parse\<close> on texts without white space and without numbers. Each returns
  \<open>None\<close> where the input is refused.
\<close>

definition base64_index :: "code_unit \<Rightarrow> nat option" where
  "base64_index c =
     (if 0x41 \<le> c \<and> c \<le> 0x5A then Some (unat c - 0x41)
      else if 0x61 \<le> c \<and> c \<le> 0x7A then Some (unat c - 0x61 + 26)
      else if 0x30 \<le> c \<and> c \<le> 0x39 then Some (unat c - 0x30 + 52)
      else if c = 0x2B then Some 62
      else if c = 0x2F then Some 63
      else None)"

fun base64_decode :: "jsstring \<Rightarrow> nat list option" where
  "base64_decode [] = Some []"
| "base64_decode (a # b # c # d # cs) =
     (case base64_index a of
        None \<Rightarrow> None
      | Some x \<Rightarrow>
          (case base64_index b of
             None \<Rightarrow> None
           | Some y \<Rightarrow>
               if cs = [] \<and> c = 0x3D \<and> d = 0x3D then Some [x * 4 + y div 16]
               else
                 (case base64_index c of
                    None \<Rightarrow> None
                  | Some z \<Rightarrow>
                      if cs = [] \<and> d = 0x3D then Some [x * 4 + y div 16, y mod 16 * 16 + z div 4]
                      else
                        (case base64_index d of
                           None \<Rightarrow> None
                         | Some u \<Rightarrow>
                             map_option
                               ((@) [x * 4 + y div 16, y mod 16 * 16 + z div 4, z mod 4 * 64 + u])
                               (base64_decode cs)))))"
| "base64_decode cs = None"

definition is_continuation :: "nat \<Rightarrow> bool" where
  "is_continuation b = (0x80 \<le> b \<and> b < 0xC0)"

text \<open>The UTF-16 code units of a code point.\<close>

definition code_point_units :: "nat \<Rightarrow> jsstring" where
  "code_point_units cp =
     (if cp < 0x10000 then [of_nat cp]
      else [of_nat (0xD800 + (cp - 0x10000) div 0x400),
            of_nat (0xDC00 + (cp - 0x10000) mod 0x400)])"

fun utf8_decode :: "nat list \<Rightarrow> jsstring option" where
  "utf8_decode [] = Some []"
| "utf8_decode (b # bs) =
     (if b < 0x80 then map_option ((#) (of_nat b)) (utf8_decode bs)
      else if 0xC2 \<le> b \<and> b < 0xE0 then
        (case bs of
           b1 # r \<Rightarrow>
             if is_continuation b1
             then map_option ((@) (code_point_units ((b - 0xC0) * 0x40 + (b1 - 0x80))))
                    (utf8_decode r)
             else None
         | _ \<Rightarrow> None)
      else if 0xE0 \<le> b \<and> b < 0xF0 then
        (case bs of
           b1 # b2 # r \<Rightarrow>
             (let cp = (b - 0xE0) * 0x1000 + (b1 - 0x80) * 0x40 + (b2 - 0x80) in
              if is_continuation b1 \<and> is_continuation b2 \<and> 0x800 \<le> cp
                 \<and> \<not> (0xD800 \<le> cp \<and> cp < 0xE000)
              then map_option ((@) (code_point_units cp)) (utf8_decode r)
              else None)
         | _ \<Rightarrow> None)
      else if 0xF0 \<le> b \<and> b < 0xF5 then
        (case bs of
           b1 # b2 # b3 # r \<Rightarrow>
             (let cp = (b - 0xF0) * 0x40000 + (b1 - 0x80) * 0x1000 + (b2 - 0x80) * 0x40
                       + (b3 - 0x80) in
              if is_continuation b1 \<and> is_continuation b2 \<and> is_continuation b3
                 \<and> 0x10000 \<le> cp \<and> cp < 0x110000
              then map_option ((@) (code_point_units cp)) (utf8_decode r)
              else None)
         | _ \<Rightarrow> None)
      else None)"

text \<open>The characters of a JSON string up to its closing quote, and the rest of the
  text.\<close>

definition simple_escape :: "code_unit \<Rightarrow> code_unit option" where
  "simple_escape e =
     (if e = 0x22 then Some 0x22
      else if e = 0x5C then Some 0x5C
      else if e = 0x2F then Some 0x2F
      else if e = 0x62 then Some 0x08
      else if e = 0x66 then Some 0x0C
      else if e = 0x6E then Some 0x0A
      else if e = 0x72 then Some 0x0D
      else if e = 0x74 then Some 0x09
      else None)"

definition with_unit :: "code_unit \<Rightarrow> (jsstring \<times> jsstring) option \<Rightarrow> (jsstring \<times> jsstring) option"
  where
  "with_unit u r = (case r of None \<Rightarrow> None | Some (s, rest) \<Rightarrow> Some (u # s, rest))"

fun parse_chars :: "jsstring \<Rightarrow> (jsstring \<times> jsstring) option" where
  "parse_chars [] = None"
| "parse_chars (c # cs) =
     (if c = 0x22 then Some ([], cs)
      else if c = 0x5C then
        (case cs of
           [] \<Rightarrow> None
         | e # r \<Rightarrow>
             if e = 0x75 then
               (case r of
                  h1 # h2 # h3 # h4 # r' \<Rightarrow>
                    (case hex_value [h1, h2, h3, h4] of
                       None \<Rightarrow> None
                     | Some n \<Rightarrow> with_unit (of_nat n) (parse_chars r'))
                | _ \<Rightarrow> None)
             else
               (case simple_escape e of
                  None \<Rightarrow> None
                | Some u \<Rightarrow> with_unit u (parse_chars r)))
      else if c < 0x20 then None
      else with_unit c (parse_chars cs))"

text \<open>
  Values, the elements of an array after its opening bracket, and the members of an
  object after its opening brace. The first argument bounds the number of nested
  calls; \<open>JSON_parse\<close> starts with the length of the text.
\<close>

fun parse_value :: "nat \<Rightarrow> jsstring \<Rightarrow> (json \<times> jsstring) option"
  and parse_elements :: "nat \<Rightarrow> jsstring \<Rightarrow> (json list \<times> jsstring) option"
  and parse_members :: "nat \<Rightarrow> jsstring \<Rightarrow> ((jsstring \<times> json) list \<times> jsstring) option"
  where
  "parse_value 0 s = None"
| "parse_value (Suc n) s =
     (case s of
        [] \<Rightarrow> None
      | c # r \<Rightarrow>
          if c = 0x22 then
            (case parse_chars r of None \<Rightarrow> None | Some (str, r') \<Rightarrow> Some (JString str, r'))
          else if c = 0x5B then
            (if take 1 r = [0x5D] then Some (JArray [], drop 1 r)
             else (case parse_elements n r of
                     None \<Rightarrow> None
                   | Some (vs, r') \<Rightarrow> Some (JArray vs, r')))
          else if c = 0x7B then
            (if take 1 r = [0x7D] then Some (JObject [], drop 1 r)
             else (case parse_members n r of
                     None \<Rightarrow> None
                   | Some (ms, r') \<Rightarrow> Some (JObject ms, r')))
          else if take 4 s = js ''null'' then Some (JNull, drop 4 s)
          else if take 4 s = js ''true'' then Some (JBool True, drop 4 s)
          else if take 5 s = js ''false'' then Some (JBool False, drop 5 s)
          else None)"
| "parse_elements 0 s = None"
| "parse_elements (Suc n) s =
     (case parse_value n s of
        None \<Rightarrow> None
      | Some (v, r) \<Rightarrow>
          (case r of
             [] \<Rightarrow> None
           | c # r' \<Rightarrow>
               if c = 0x5D then Some ([v], r')
               else if c = 0x2C then
                 (case parse_elements n r' of
                    None \<Rightarrow> None
                  | Some (vs, r'') \<Rightarrow> Some (v # vs, r''))
               else None))"
| "parse_members 0 s = None"
| "parse_members (Suc n) s =
     (case s of
        [] \<Rightarrow> None
      | q # r \<Rightarrow>
          if q = 0x22 then
            (case parse_chars r of
               None \<Rightarrow> None
             | Some (k, r1) \<Rightarrow>
                 (case r1 of
                    [] \<Rightarrow> None
                  | colon # r2 \<Rightarrow>
                      if colon = 0x3A then
                        (case parse_value n r2 of
                           None \<Rightarrow> None
                         | Some (v, r3) \<Rightarrow>
                             (case r3 of
                                [] \<Rightarrow> None
                              | c # r4 \<Rightarrow>
                                  if c = 0x7D then Some ([(k, v)], r4)
                                  else if c = 0x2C then
                                    (case parse_members n r4 of
                                       None \<Rightarrow> None
                                     | Some (ms, r5) \<Rightarrow> Some ((k, v) # ms, r5))
                                  else None))
                      else None))
          else None)"

definition JSON_parse :: "jsstring \<Rightarrow> json option" where
  "JSON_parse s =
     (case parse_value (length s) s of
        None \<Rightarrow> None
      | Some (v, rest) \<Rightarrow> if rest = [] then Some v else None)"

definition decodeTokenURI :: "jsstring \<Rightarrow> json option" where
  "decodeTokenURI uri =
     (if take (length data_uri_prefix) uri = data_uri_prefix then
        (case base64_decode (drop (length data_uri_prefix) uri) of
           None \<Rightarrow> None
         | Some bytes \<Rightarrow>
             (case utf8_decode bytes of
                None \<Rightarrow> None
              | Some txt \<Rightarrow> JSON_parse txt))
      else None)"

section \<open>The account service\<close>

text \<open>
  Values that come back from the transport untyped (\<open>any\<close>): the JSON values and
  \<open>undefined\<close>. A number is kept as an integer; only whether it is zero matters here.
\<close>

datatype jsval =
    Undefined
  | Null
  | Bool bool
  | Number int
  | Str jsstring
  | Arr "jsval list"
  | Obj "(jsstring \<times> jsval) list"

record sub_account =
  address :: jsstring

text \<open>The call of a batch (\<open>to\<close>, \<open>data\<close>, \<open>value\<close>), the parameter of
  \<open>wallet_sendCalls\<close> and the request of \<open>eth_sendTransaction\<close>.\<close>

record call =
  call_to :: jsstring
  call_data :: jsstring
  call_value :: jsstring

record calls_param =
  version :: jsstring
  atomicRequired :: bool
  calls_from :: jsstring
  calls :: "call list"

record tx_request =
  tx_from :: jsstring
  tx_to :: jsstring
  tx_data :: jsstring
  tx_value :: jsstring

text \<open>What the application sends out: the requests to the provider, with their
  parameters, and the HTTP request for the weather.\<close>

datatype event =
    Eth_requestAccounts
  | Wallet_getSubAccounts "jsstring option" jsstring \<comment> \<open>\<open>account\<close>, \<open>domain\<close>\<close>
  | Wallet_addSubAccount \<comment> \<open>\<open>account: {type: 'create'}\<close>\<close>
  | Wallet_sendCalls calls_param
  | Eth_sendTransaction tx_request
  | Http_get jsstring

text \<open>
  The world outside: each answer is a function of everything sent so far, the request
  it answers being the last event, and is either an error raised or a response of the
  shape the source's type annotation gives it. The answer to \<open>wallet_getSubAccounts\<close>
  is the \<open>subAccounts\<close> field of the response, \<open>None\<close> when the field is absent. The
  record also holds the page's origin, the API key of the environment, the clock's
  \<open>new Date().toLocaleString()\<close> and the conversion of a number to text.
\<close>

record 'n world =
  requestAccounts_reply :: "event list \<Rightarrow> js_error + jsstring list"
  getSubAccounts_reply :: "event list \<Rightarrow> js_error + sub_account list option"
  addSubAccount_reply :: "event list \<Rightarrow> js_error + sub_account"
  sendCalls_reply :: "event list \<Rightarrow> js_error + jsval"
  sendTransaction_reply :: "event list \<Rightarrow> js_error + jsval"
  http_reply :: "event list \<Rightarrow> js_error + 'n observation"
  window_origin :: jsstring
  openWeatherApiKey :: jsstring
  toLocaleString_now :: "event list \<Rightarrow> jsstring"
  number_toString :: "'n \<Rightarrow> jsstring"

text \<open>The fields of \<open>BaseAccountService\<close>, and the events sent so far.\<close>

record service =
  universalAddress :: "jsstring option"
  subAccount :: "sub_account option"
  trace :: "event list"

definition send :: "event \<Rightarrow> service \<Rightarrow> service" where
  "send e s = s\<lparr> trace := trace s @ [e] \<rparr>"

definition connectWallet :: "'n world \<Rightarrow> service \<Rightarrow> (js_error + jsstring list) \<times> service" where
  "connectWallet w s =
     (let s1 = send Eth_requestAccounts s in
      case requestAccounts_reply w (trace s1) of
        Inl e \<Rightarrow> (Inl e, s1)
      | Inr accounts \<Rightarrow>
          (let s2 = s1\<lparr> universalAddress := (case accounts of [] \<Rightarrow> None | a # _ \<Rightarrow> Some a) \<rparr>;
               s3 = (if length accounts \<ge> 2
                     then s2\<lparr> subAccount := Some \<lparr> address = accounts ! 1 \<rparr> \<rparr>
                     else s2)
           in (Inr accounts, s3)))"

definition ensureSubAccount :: "'n world \<Rightarrow> service \<Rightarrow> (js_error + sub_account) \<times> service" where
  "ensureSubAccount w s =
     (case subAccount s of
        Some sub \<Rightarrow> (Inr sub, s)
      | None \<Rightarrow>
          (let s1 = send (Wallet_getSubAccounts (universalAddress s) (window_origin w)) s in
           case getSubAccounts_reply w (trace s1) of
             Inl e \<Rightarrow> (Inl e, s1)
           | Inr subAccounts \<Rightarrow>
               (case subAccounts of
                  Some (first # _) \<Rightarrow>
                    (Inr \<lparr> address = address first \<rparr>,
                     s1\<lparr> subAccount := Some \<lparr> address = address first \<rparr> \<rparr>)
                | _ \<Rightarrow>
                    (let s2 = send Wallet_addSubAccount s1 in
                     case addSubAccount_reply w (trace s2) of
                       Inl e \<Rightarrow> (Inl e, s2)
                     | Inr newSub \<Rightarrow>
                         (Inr \<lparr> address = address newSub \<rparr>,
                          s2\<lparr> subAccount := Some \<lparr> address = address newSub \<rparr> \<rparr>)))))"

text \<open>The optional parameter \<open>value = '0x0'\<close>: \<open>None\<close> is the argument left out.\<close>

definition default_value :: "jsstring option \<Rightarrow> jsstring" where
  "default_value v = (case v of None \<Rightarrow> js ''0x0'' | Some x \<Rightarrow> x)"

definition sendTransactionFromSub ::
  "'n world \<Rightarrow> jsstring \<Rightarrow> jsstring \<Rightarrow> jsstring option \<Rightarrow> service \<Rightarrow> (js_error + jsval) \<times> service"
  where
  "sendTransactionFromSub w to data val s =
     (case ensureSubAccount w s of
        (Inl e, s1) \<Rightarrow> (Inl e, s1)
      | (Inr sub, s1) \<Rightarrow>
          (let callsParam =
                 \<lparr> version = js ''2.0'', atomicRequired = True, calls_from = address sub,
                   calls = [\<lparr> call_to = to, call_data = data, call_value = default_value val \<rparr>] \<rparr>;
               s2 = send (Wallet_sendCalls callsParam) s1
           in (sendCalls_reply w (trace s2), s2)))"

definition sendTxViaEthRpc ::
  "'n world \<Rightarrow> jsstring \<Rightarrow> jsstring \<Rightarrow> jsstring option \<Rightarrow> service \<Rightarrow> (js_error + jsval) \<times> service"
  where
  "sendTxViaEthRpc w to data val s =
     (case ensureSubAccount w s of
        (Inl e, s1) \<Rightarrow> (Inl e, s1)
      | (Inr sub, s1) \<Rightarrow>
          (let txReq = \<lparr> tx_from = address sub, tx_to = to, tx_data = data,
                         tx_value = default_value val \<rparr>;
               s2 = send (Eth_sendTransaction txReq) s1
           in (sendTransaction_reply w (trace s2), s2)))"

definition getSubAccountAddress :: "'n world \<Rightarrow> service \<Rightarrow> (js_error + jsstring) \<times> service" where
  "getSubAccountAddress w s =
     (case ensureSubAccount w s of
        (Inl e, s1) \<Rightarrow> (Inl e, s1)
      | (Inr sub, s1) \<Rightarrow> (Inr (address sub), s1))"

definition getUniversalAddress :: "service \<Rightarrow> jsstring option" where
  "getUniversalAddress s = universalAddress s"

section \<open>The weather generator component\<close>

record 'n component =
  city :: jsstring
  weather :: "'n observation option"
  loading :: bool
  txHash :: jsval
  error :: "jsstring option"
  baseAccount :: service

definition CONTRACT_ADDRESS :: jsstring where
  "CONTRACT_ADDRESS = js ''0xb4F800E5647f9B82Be98068cb98c516f871bb7B8''"

text \<open>\<open>String.prototype.trim\<close>: white space and line terminators go from both ends.\<close>

definition is_js_space :: "code_unit \<Rightarrow> bool" where
  "is_js_space c =
     (c \<in> {0x09, 0x0A, 0x0B, 0x0C, 0x0D, 0x20, 0xA0, 0x1680, 0x2028, 0x2029, 0x202F, 0x205F,
            0x3000, 0xFEFF}
      \<or> (0x2000 \<le> c \<and> c \<le> 0x200A))"

definition trim :: "jsstring \<Rightarrow> jsstring" where
  "trim s = rev (dropWhile is_js_space (rev (dropWhile is_js_space s)))"

text \<open>\<open>this.city.trim() || 'Washington'\<close>: the empty string is falsy.\<close>

definition cityName :: "jsstring \<Rightarrow> jsstring" where
  "cityName c = (if trim c = [] then js ''Washington'' else trim c)"

definition weather_url :: "jsstring \<Rightarrow> jsstring \<Rightarrow> jsstring" where
  "weather_url api_key city_name =
     js ''https://api.openweathermap.org/data/2.5/weather?q='' @ city_name
       @ js ''&appid='' @ api_key @ js ''&units=metric''"

text \<open>Truthiness, a property read on a value that may be \<open>null\<close> or \<open>undefined\<close>
  (\<open>v?.k\<close>, for a name \<open>k\<close> that only an object's own fields can carry), and
  \<open>a || b\<close>.\<close>

fun truthy :: "jsval \<Rightarrow> bool" where
  "truthy Undefined = False"
| "truthy Null = False"
| "truthy (Bool b) = b"
| "truthy (Number n) = (n \<noteq> 0)"
| "truthy (Str s) = (s \<noteq> [])"
| "truthy (Arr vs) = True"
| "truthy (Obj fs) = True"

fun optional_get :: "jsval \<Rightarrow> jsstring \<Rightarrow> jsval" where
  "optional_get (Obj fs) k = (case map_of fs k of None \<Rightarrow> Undefined | Some v \<Rightarrow> v)"
| "optional_get v k = Undefined"

definition js_or :: "jsval \<Rightarrow> jsval \<Rightarrow> jsval" where
  "js_or a b = (if truthy a then a else b)"

text \<open>\<open>result?.txHash || result?.hash || null\<close>\<close>

definition extract_txHash :: "jsval \<Rightarrow> jsval" where
  "extract_txHash result =
     js_or (js_or (optional_get result (js ''txHash'')) (optional_get result (js ''hash''))) Null"

text \<open>The parameter of the batched call that mints: the contract as the target, the
  encoded call as the data, the value left to its default.\<close>

definition mint_calls :: "jsstring \<Rightarrow> jsstring \<Rightarrow> calls_param" where
  "mint_calls subAddress tokenURI =
     \<lparr> version = js ''2.0'', atomicRequired = True, calls_from = subAddress,
       calls = [\<lparr> call_to = CONTRACT_ADDRESS, call_data = encodeMintCall subAddress tokenURI,
                  call_value = js ''0x0'' \<rparr>] \<rparr>"

text \<open>The body of the \<open>try\<close> block of \<open>getWeather\<close>: the first error ends it.\<close>

definition getWeather_try :: "'n world \<Rightarrow> 'n component \<Rightarrow> (js_error + unit) \<times> 'n component" where
  "getWeather_try w c =
     (let url = weather_url (openWeatherApiKey w) (cityName (city c));
          s1 = send (Http_get url) (baseAccount c)
      in case http_reply w (trace s1) of
           Inl e \<Rightarrow> (Inl e, c\<lparr> baseAccount := s1 \<rparr>)
         | Inr obs \<Rightarrow>
             (let c1 = c\<lparr> baseAccount := s1, weather := Some obs \<rparr> in
              case build_metadata (number_toString w) (toLocaleString_now w (trace s1)) obs of
                Inl e \<Rightarrow> (Inl e, c1)
              | Inr metadata \<Rightarrow>
                  (case encodeTokenURI metadata of
                     Inl e \<Rightarrow> (Inl e, c1)
                   | Inr tokenURI \<Rightarrow>
                       (case getSubAccountAddress w s1 of
                          (Inl e, s2) \<Rightarrow> (Inl e, c1\<lparr> baseAccount := s2 \<rparr>)
                        | (Inr subAddress, s2) \<Rightarrow>
                            (case sendTransactionFromSub w CONTRACT_ADDRESS
                                    (encodeMintCall subAddress tokenURI) None s2 of
                               (Inl e, s3) \<Rightarrow> (Inl e, c1\<lparr> baseAccount := s3 \<rparr>)
                             | (Inr result, s3) \<Rightarrow>
                                 (Inr (), c1\<lparr> baseAccount := s3,
                                              txHash := extract_txHash result \<rparr>))))))"

text \<open>\<open>getWeather\<close>: the resets, the \<open>try\<close> block, the \<open>catch\<close> that records
  \<open>err.message\<close>, and the \<open>finally\<close>.\<close>

definition getWeather :: "'n world \<Rightarrow> 'n component \<Rightarrow> 'n component" where
  "getWeather w c =
     (let c1 = c\<lparr> loading := True, txHash := Null, weather := None \<rparr>;
          (r, c2) = getWeather_try w c1;
          c3 = (case r of Inl err \<Rightarrow> c2\<lparr> error := Some (message err) \<rparr> | Inr _ \<Rightarrow> c2)
      in c3\<lparr> loading := False \<rparr>)"

text \<open>The fields as the classes initialise them.\<close>

definition initial_service :: service where
  "initial_service = \<lparr> universalAddress = None, subAccount = None, trace = [] \<rparr>"

definition initial_component :: "'n component" where
  "initial_component =
     \<lparr> city = [], weather = None, loading = False, txHash = Null, error = None,
       baseAccount = initial_service \<rparr>"

text \<open>The batched-call requests of a trace, in order.\<close>

fun sendCalls_requests :: "event list \<Rightarrow> calls_param list" where
  "sendCalls_requests [] = []"
| "sendCalls_requests (Wallet_sendCalls p # es) = p # sendCalls_requests es"
| "sendCalls_requests (e # es) = sendCalls_requests es"

text \<open>The requests of the discovery-or-create sequence in a trace.\<close>

fun is_discovery :: "event \<Rightarrow> bool" where
  "is_discovery (Wallet_getSubAccounts a d) = True"
| "is_discovery Wallet_addSubAccount = True"
| "is_discovery e = False"

section \<open>A world for examples\<close>

text \<open>
  A provider with no sub-account yet, which creates one on request and refuses every
  batched call, and a weather service that always reports Paris.
\<close>

definition example_world :: "unit world" where
  "example_world =
     \<lparr> requestAccounts_reply = (\<lambda>tr. Inr [js ''0x1111111111111111111111111111111111111111'']),
       getSubAccounts_reply = (\<lambda>tr. Inr (Some [])),
       addSubAccount_reply =
         (\<lambda>tr. Inr \<lparr> address = js ''0x2222222222222222222222222222222222222222'' \<rparr>),
       sendCalls_reply = (\<lambda>tr. Inl (JsError (js ''insufficient allowance''))),
       sendTransaction_reply = (\<lambda>tr. Inr Null),
       http_reply =
         (\<lambda>tr. Inr \<lparr> obs_name = js ''Paris'', obs_weather = [js ''clear sky''],
                     obs_main_temp = () \<rparr>),
       window_origin = js ''https://weather.example'',
       openWeatherApiKey = js ''KEY'',
       toLocaleString_now = (\<lambda>tr. js ''11/3/2026, 6:42:00 AM''),
       number_toString = (\<lambda>t. js ''18.5'') \<rparr>"

section \<open>Properties of the call encoder\<close>

declare nat_toString16.simps [simp del]

lemma length_js: "length (js s) = length s"
  by (simp add: js_def)

lemma unat_code_unit: "n < 65536 \<Longrightarrow> unat (of_nat n :: code_unit) = n"
  by (simp add: unat_of_nat)

lemma array_from_ascii: "is_ascii s \<Longrightarrow> array_from s = map (\<lambda>c. [c]) s"
proof (induction s rule: array_from.induct)
  case (3 c1 c2 cs)
  from 3(3) have "c1 < 0x80" by (simp add: is_ascii_def)
  then have "\<not> is_high_surrogate c1"
    by (simp add: is_high_surrogate_def word_le_nat_alt word_less_nat_alt)
  with 3 show ?case by (simp add: is_ascii_def)
qed simp_all

lemma length_nat_toString16: "n < 16 ^ k \<Longrightarrow> 0 < k \<Longrightarrow> length (nat_toString16 n) \<le> k"
proof (induction n arbitrary: k rule: nat_toString16.induct)
  case (1 n)
  show ?case
  proof (cases "n < 16")
    case True
    with 1(3) show ?thesis by (simp add: nat_toString16.simps)
  next
    case False
    then obtain j where k: "k = Suc j" using 1(3) by (cases k) auto
    from False 1(2) k have "0 < j" by (cases j) auto
    moreover from 1(2) k have "n div 16 < 16 ^ j"
      by (simp add: less_mult_imp_div_less mult.commute)
    ultimately have "length (nat_toString16 (n div 16)) \<le> j" using 1(1) False by blast
    then show ?thesis using False k by (subst nat_toString16.simps) simp
  qed
qed

lemma length_byte_hex: "n < 256 \<Longrightarrow> length (padStart 2 0x30 (nat_toString16 n)) = 2"
  by (subst nat_toString16.simps, subst nat_toString16.simps)
    (simp add: less_mult_imp_div_less padStart_def)

lemma unat_hex_digit_lower:
  "d < 16 \<Longrightarrow> unat (hex_digit_lower d) = (if d < 10 then 48 + d else 87 + d)"
  by (simp add: hex_digit_lower_def unat_code_unit del: of_nat_add)

lemma hex_digit_value_lower: "d < 16 \<Longrightarrow> hex_digit_value (hex_digit_lower d) = Some d"
  by (simp add: hex_digit_value_def word_le_nat_alt unat_hex_digit_lower)

lemma hex_value_from_append:
  "hex_value_from acc (xs @ ys) =
     (case hex_value_from acc xs of None \<Rightarrow> None | Some a \<Rightarrow> hex_value_from a ys)"
  by (induction xs arbitrary: acc) (auto split: option.splits)

lemma hex_value_from_toString16:
  "hex_value_from acc (nat_toString16 n) = Some (acc * 16 ^ length (nat_toString16 n) + n)"
proof (induction n arbitrary: acc rule: nat_toString16.induct)
  case (1 n)
  show ?case
  proof (cases "n < 16")
    case True
    then show ?thesis by (simp add: hex_digit_value_lower nat_toString16.simps)
  next
    case False
    have "hex_value_from acc (nat_toString16 n) =
      hex_value_from acc (nat_toString16 (n div 16) @ [hex_digit_lower (n mod 16)])"
      using False by (subst nat_toString16.simps) simp
    also have "\<dots> =
      Some (16 * (acc * 16 ^ length (nat_toString16 (n div 16)) + n div 16) + n mod 16)"
      using 1 [OF False] by (simp add: hex_value_from_append hex_digit_value_lower)
    also have "length (nat_toString16 n) = Suc (length (nat_toString16 (n div 16)))"
      using False by (subst nat_toString16.simps) simp
    ultimately show ?thesis by (simp add: algebra_simps)
  qed
qed

lemma hex_digit_value_zero: "hex_digit_value 0x30 = Some 0"
  by (simp add: hex_digit_value_def)

lemma hex_value_from_zeros: "hex_value_from 0 (replicate k 0x30 @ s) = hex_value_from 0 s"
  by (induction k) (simp_all add: hex_digit_value_zero)

lemma hex_value_padStart: "hex_value (padStart k 0x30 (nat_toString16 n)) = Some n"
  by (simp add: hex_value_def padStart_def hex_value_from_zeros hex_value_from_toString16)

lemma utf8_encode_ascii: "is_ascii s \<Longrightarrow> utf8_encode s = map unat s"
proof (induction s rule: utf8_encode.induct)
  case (2 c)
  then show ?case
    by (simp add: is_ascii_def is_surrogate_def utf8_octets_def word_le_nat_alt word_less_nat_alt)
next
  case (3 c1 c2 cs)
  from 3(3) have "c1 < 0x80" by (simp add: is_ascii_def)
  then have "\<not> is_high_surrogate c1" "\<not> is_surrogate c1" "unat c1 < 0x80"
    by (simp_all add: is_high_surrogate_def is_surrogate_def word_le_nat_alt word_less_nat_alt)
  with 3 show ?case by (simp add: is_ascii_def utf8_octets_def)
qed simp

lemma utf8_length_ascii: "is_ascii s \<Longrightarrow> utf8_length s = length s"
  by (simp add: utf8_length_def utf8_encode_ascii)

lemma tokenURIHex_ascii: "is_ascii s \<Longrightarrow> length (tokenURIHex s) = 2 * length s"
proof -
  assume a: "is_ascii s"
  have "\<And>c. c \<in> set s \<Longrightarrow>
      length (padStart 2 0x30 (charCode_toString16 (charCodeAt [c] 0))) = 2"
  proof -
    fix c assume "c \<in> set s"
    with a have "c < 0x80" by (simp add: is_ascii_def list_all_iff)
    then have "unat c < 256" by (simp add: word_less_nat_alt)
    then show "length (padStart 2 0x30 (charCode_toString16 (charCodeAt [c] 0))) = 2"
      by (simp add: charCodeAt_def charCode_toString16_def length_byte_hex)
  qed
  then have "length (concat (map (\<lambda>c. padStart 2 0x30 (charCode_toString16 (charCodeAt c 0)))
      (map (\<lambda>c. [c]) s))) = 2 * length s"
    by (induction s) simp_all
  with a show ?thesis by (simp add: tokenURIHex_def array_from_ascii)
qed

lemma ceil_div_double: "ceil_div (2 * n) 64 * 64 = ceil_div n 32 * 32 * 2"
  by (simp add: ceil_div_def)

lemma half_toString16_even: "half_toString16 (2 * n) = nat_toString16 n"
  by (simp add: half_toString16_def)

lemma length_lenPadded: "n < 2 ^ 53 \<Longrightarrow> length (padStart 64 0x30 (nat_toString16 n)) = 64"
proof -
  assume "n < 2 ^ 53"
  then have "n < (16::nat) ^ 64" by simp
  then have "length (nat_toString16 n) \<le> 64" by (rule length_nat_toString16) simp
  then show ?thesis by (simp add: padStart_def)
qed

lemma length_padEnd_ceil:
  "length (padEnd (ceil_div (length s) 64 * 64) fill s) = ceil_div (length s) 64 * 64"
proof -
  have "length s \<le> ceil_div (length s) 64 * 64" by (simp add: ceil_div_def)
  then show ?thesis by (simp add: padEnd_def)
qed

lemma selector_split: "selector = js ''0x'' @ js ''40c10f19''"
  by (simp add: selector_def js_def)

lemma length_offset_word: "length offset_word = 64"
  by (simp add: offset_word_def length_js)

text \<open>
  Claim C2, as the code has it: for every token URI of ASCII characters only (every
  \<open>data:application/json;base64,\<close> URI is one) that is shorter than \<open>2 ^ 53\<close>
  characters, and every address of at most 64 characters once its \<open>0x\<close> is removed,
  the length word of the encoded call (the 64 hex characters after the prefix, the
  selector, the address word and the offset word), read as a big-endian integer, is the
  byte length of the UTF-8 encoding of the token URI.
\<close>

theorem length_word_is_utf8_length:
  assumes "is_ascii tokenURI" and "length tokenURI < 2 ^ 53"
    and "length (replace_first (js ''0x'') [] to) \<le> 64"
  shows "hex_value (length_word (encodeMintCall to tokenURI)) = Some (utf8_length tokenURI)"
proof -
  let ?a = "padStart 64 0x30 (replace_first (js ''0x'') [] to)"
  let ?l = "padStart 64 0x30 (nat_toString16 (length tokenURI))"
  have hex: "length (tokenURIHex tokenURI) = 2 * length tokenURI"
    using assms(1) by (rule tokenURIHex_ascii)
  have a: "length ?a = 64" using assms(3) by (simp add: padStart_def)
  have l: "length ?l = 64" using assms(2) by (rule length_lenPadded)
  have s: "length selector = 10" by (simp add: selector_def length_js)
  have "length_word (encodeMintCall to tokenURI) = ?l"
    unfolding encodeMintCall_def Let_def length_word_def hex half_toString16_even
    using a l s length_offset_word by simp
  then show ?thesis
    using assms(1) by (simp add: hex_value_padStart utf8_length_ascii)
qed

theorem length_word_is_utf8_length_witness:
  "hex_value (length_word (encodeMintCall (js ''0xb4F800E5647f9B82Be98068cb98c516f871bb7B8'')
       (js ''data:application/json;base64,e30=''))) =
     Some (utf8_length (js ''data:application/json;base64,e30=''))"
proof (rule length_word_is_utf8_length)
  show "is_ascii (js ''data:application/json;base64,e30='')"
    by (simp add: is_ascii_def js_def)
  show "length (js ''data:application/json;base64,e30='') < 2 ^ 53"
    by (simp add: length_js)
  show "length (replace_first (js ''0x'') [] (js ''0xb4F800E5647f9B82Be98068cb98c516f871bb7B8''))
      \<le> 64"
    by (simp add: js_def)
qed

text \<open>
  Claim C2 as it is stated fails outside that domain. For the token URI of the one
  character U+00E9 the length word is 1 and the UTF-8 encoding has 2 bytes; for an
  address of 65 digits the 64 characters at the length word's place read 0 for a token
  URI of one byte.
\<close>

theorem length_word_counterexample:
  "hex_value (length_word (encodeMintCall (js ''0xb4F800E5647f9B82Be98068cb98c516f871bb7B8'')
       [0xE9])) = Some 1 \<and>
   utf8_length [0xE9] = 2 \<and>
   hex_value (length_word (encodeMintCall (replicate 65 0x31) (js ''a''))) = Some 0 \<and>
   utf8_length (js ''a'') = 1"
  by code_simp

text \<open>
  Claim C3, as the code has it: for every address of at most 64 characters once its
  \<open>0x\<close> is removed and every token URI of ASCII characters only, shorter than
  \<open>2 ^ 53\<close> characters, the encoded call is \<open>0x\<close> followed by
  \<open>8 + 64 + 64 + 64 + ceil(n/32)*32*2\<close> hex characters, \<open>n\<close> being the UTF-8 byte
  length of the token URI; the part after the selector has
  \<open>2 * (64 + 32 + ceil(n/32)*32)\<close> characters, that is \<open>64 + 32 + ceil(n/32)*32\<close>
  bytes.
\<close>

theorem encodeMintCall_length:
  assumes "is_ascii tokenURI" and "length tokenURI < 2 ^ 53"
    and "length (replace_first (js ''0x'') [] to) \<le> 64"
  shows "take 2 (encodeMintCall to tokenURI) = js ''0x'' \<and>
         length (drop 2 (encodeMintCall to tokenURI)) =
           8 + 64 + 64 + 64 + ceil_div (utf8_length tokenURI) 32 * 32 * 2 \<and>
         length (drop (2 + 8) (encodeMintCall to tokenURI)) =
           2 * (64 + 32 + ceil_div (utf8_length tokenURI) 32 * 32)"
proof -
  have hex: "length (tokenURIHex tokenURI) = 2 * length tokenURI"
    using assms(1) by (rule tokenURIHex_ascii)
  have n: "utf8_length tokenURI = length tokenURI"
    using assms(1) by (rule utf8_length_ascii)
  have a: "length (padStart 64 0x30 (replace_first (js ''0x'') [] to)) = 64"
    using assms(3) by (simp add: padStart_def)
  have l: "length (padStart 64 0x30 (half_toString16 (length (tokenURIHex tokenURI)))) = 64"
    using assms(2) by (simp add: hex half_toString16_even length_lenPadded)
  have d: "length (padEnd (ceil_div (length (tokenURIHex tokenURI)) 64 * 64) 0x30
        (tokenURIHex tokenURI)) = ceil_div (length tokenURI) 32 * 32 * 2"
  proof -
    have "length (padEnd (ceil_div (length (tokenURIHex tokenURI)) 64 * 64) 0x30
        (tokenURIHex tokenURI)) = ceil_div (length (tokenURIHex tokenURI)) 64 * 64"
      by (rule length_padEnd_ceil)
    also have "\<dots> = ceil_div (length tokenURI) 32 * 32 * 2"
      by (simp only: hex ceil_div_double)
    finally show ?thesis .
  qed
  show ?thesis
    unfolding encodeMintCall_def Let_def selector_split
    using a l d length_offset_word by (simp add: n length_js)
qed

theorem encodeMintCall_length_witness:
  "take 2 (encodeMintCall (js ''0xb4F800E5647f9B82Be98068cb98c516f871bb7B8'')
       (js ''data:application/json;base64,e30='')) = js ''0x'' \<and>
   length (drop 2 (encodeMintCall (js ''0xb4F800E5647f9B82Be98068cb98c516f871bb7B8'')
       (js ''data:application/json;base64,e30=''))) =
     8 + 64 + 64 + 64 + ceil_div (utf8_length (js ''data:application/json;base64,e30='')) 32 * 32 * 2 \<and>
   length (drop (2 + 8) (encodeMintCall (js ''0xb4F800E5647f9B82Be98068cb98c516f871bb7B8'')
       (js ''data:application/json;base64,e30=''))) =
     2 * (64 + 32 + ceil_div (utf8_length (js ''data:application/json;base64,e30='')) 32 * 32)"
proof (rule encodeMintCall_length)
  show "is_ascii (js ''data:application/json;base64,e30='')"
    by (simp add: is_ascii_def js_def)
  show "length (js ''data:application/json;base64,e30='') < 2 ^ 53"
    by (simp add: length_js)
  show "length (replace_first (js ''0x'') [] (js ''0xb4F800E5647f9B82Be98068cb98c516f871bb7B8''))
      \<le> 64"
    by (simp add: js_def)
qed

text \<open>
  Claim C3 as it is stated fails outside that domain. Seventeen characters U+00E9 have
  34 bytes in UTF-8, which the claim pads to 64 bytes (328 hex characters in all),
  while the code writes 264; an address of 65 digits makes the call one character
  longer than the claim's 264 for a token URI of one byte.
\<close>

theorem encodeMintCall_length_counterexample:
  "length (drop 2 (encodeMintCall (js ''0xb4F800E5647f9B82Be98068cb98c516f871bb7B8'')
       (replicate 17 0xE9))) = 264 \<and>
   8 + 64 + 64 + 64 + ceil_div (utf8_length (replicate 17 0xE9)) 32 * 32 * 2 = 328 \<and>
   length (drop 2 (encodeMintCall (replicate 65 0x31) (js ''a''))) = 265 \<and>
   8 + 64 + 64 + 64 + ceil_div (utf8_length (js ''a'')) 32 * 32 * 2 = 264"
  by code_simp

section \<open>Properties of the account service\<close>

lemma send_simps [simp]:
  "trace (send e s) = trace s @ [e]"
  "subAccount (send e s) = subAccount s"
  "universalAddress (send e s) = universalAddress s"
  by (simp_all add: send_def)

lemma sendCalls_requests_append [simp]:
  "sendCalls_requests (xs @ ys) = sendCalls_requests xs @ sendCalls_requests ys"
  by (induction xs rule: sendCalls_requests.induct) simp_all

lemma ensureSubAccount_cached: "subAccount s = Some sub \<Longrightarrow> ensureSubAccount w s = (Inr sub, s)"
  by (simp add: ensureSubAccount_def)

lemma ensureSubAccount_Inr: "ensureSubAccount w s = (Inr sub, s1) \<Longrightarrow> subAccount s1 = Some sub"
  by (auto simp: ensureSubAccount_def Let_def split: option.splits sum.splits list.splits)

lemma ensureSubAccount_trace:
  "trace (snd (ensureSubAccount w s)) = trace s \<or>
   trace (snd (ensureSubAccount w s)) =
     trace s @ [Wallet_getSubAccounts (universalAddress s) (window_origin w)] \<or>
   trace (snd (ensureSubAccount w s)) =
     trace s @ [Wallet_getSubAccounts (universalAddress s) (window_origin w), Wallet_addSubAccount]"
  by (auto simp: ensureSubAccount_def Let_def split: option.splits sum.splits list.splits)

lemma ensureSubAccount_trace_ex:
  "\<exists>es. trace (snd (ensureSubAccount w s)) = trace s @ es \<and> sendCalls_requests es = []"
  using ensureSubAccount_trace [of w s] by auto

lemma example_ensureSubAccount:
  "ensureSubAccount example_world initial_service =
     (Inr \<lparr> address = js ''0x2222222222222222222222222222222222222222'' \<rparr>,
      \<lparr> universalAddress = None,
        subAccount = Some \<lparr> address = js ''0x2222222222222222222222222222222222222222'' \<rparr>,
        trace = [Wallet_getSubAccounts None (js ''https://weather.example''),
                 Wallet_addSubAccount] \<rparr>)"
  by (simp add: ensureSubAccount_def example_world_def initial_service_def send_def)

text \<open>
  Claim C4, as the code has it: when \<open>ensureSubAccount()\<close> gives the sub-account,
  \<open>sendTransactionFromSub(to, data)\<close> with the value left out sends, after whatever
  \<open>ensureSubAccount()\<close> sent, one \<open>wallet_sendCalls\<close> request with version 2.0,
  \<open>atomicRequired\<close> true, from the sub-account's address, with the single call
  \<open>{to, data, value}\<close> whose value is the default \<open>'0x0'\<close>, and returns the
  provider's answer to it; this request is the only batched call added to the trace.
\<close>

theorem sendTransactionFromSub_request:
  assumes "ensureSubAccount w s = (Inr sub, s1)"
  shows "sendTransactionFromSub w to data None s =
           (sendCalls_reply w (trace s1 @
              [Wallet_sendCalls
                 \<lparr> version = js ''2.0'', atomicRequired = True, calls_from = address sub,
                   calls = [\<lparr> call_to = to, call_data = data, call_value = js ''0x0'' \<rparr>] \<rparr>]),
            send (Wallet_sendCalls
                 \<lparr> version = js ''2.0'', atomicRequired = True, calls_from = address sub,
                   calls = [\<lparr> call_to = to, call_data = data, call_value = js ''0x0'' \<rparr>] \<rparr>) s1) \<and>
         sendCalls_requests (trace (snd (sendTransactionFromSub w to data None s))) =
           sendCalls_requests (trace s) @
             [\<lparr> version = js ''2.0'', atomicRequired = True, calls_from = address sub,
                calls = [\<lparr> call_to = to, call_data = data, call_value = js ''0x0'' \<rparr>] \<rparr>]"
proof -
  from ensureSubAccount_trace_ex [of w s] assms
  obtain es where "trace s1 = trace s @ es" "sendCalls_requests es = []" by auto
  then show ?thesis using assms
    by (simp add: sendTransactionFromSub_def default_value_def Let_def)
qed

theorem sendTransactionFromSub_request_witness:
  "sendCalls_requests (trace (snd (sendTransactionFromSub example_world CONTRACT_ADDRESS
       (js ''0x40c10f19'') None initial_service))) =
     [\<lparr> version = js ''2.0'', atomicRequired = True,
        calls_from = js ''0x2222222222222222222222222222222222222222'',
        calls = [\<lparr> call_to = CONTRACT_ADDRESS, call_data = js ''0x40c10f19'',
                   call_value = js ''0x0'' \<rparr>] \<rparr>]"
  using sendTransactionFromSub_request
    [OF example_ensureSubAccount, of CONTRACT_ADDRESS "js ''0x40c10f19''"]
  by (simp add: initial_service_def)

text \<open>
  Claim C4 as it is stated gives the default value as \<open>'0'\<close>; the call that the code
  sends carries \<open>'0x0'\<close>.
\<close>

theorem default_value_counterexample:
  "map (\<lambda>p. map call_value (calls p))
     (sendCalls_requests (trace (snd (sendTransactionFromSub example_world CONTRACT_ADDRESS
        (js ''0x40c10f19'') None initial_service)))) = [[js ''0x0'']] \<and>
   js ''0x0'' \<noteq> js ''0''"
  by (simp add: sendTransactionFromSub_def example_ensureSubAccount default_value_def send_def
      js_def Let_def)

text \<open>When \<open>ensureSubAccount()\<close> raises, the error is passed on and no batched call is
  sent.\<close>

lemma sendTransactionFromSub_no_sub:
  assumes "ensureSubAccount w s = (Inl e, s1)"
  shows "sendTransactionFromSub w to data val s = (Inl e, s1) \<and>
         sendCalls_requests (trace s1) = sendCalls_requests (trace s)"
proof -
  from ensureSubAccount_trace_ex [of w s] assms
  obtain es where "trace s1 = trace s @ es" "sendCalls_requests es = []" by auto
  then show ?thesis using assms by (simp add: sendTransactionFromSub_def)
qed

text \<open>
  Claim C5: when a call of \<open>ensureSubAccount()\<close> returns a sub-account, the next call
  returns the same one and changes nothing, so it sends no request; the sub-account is
  the cached one; and the two calls together have sent the discovery-or-create
  sequence at most once: nothing, or the discovery request, or the discovery request
  and the creation request.
\<close>

theorem ensureSubAccount_idempotent:
  assumes "ensureSubAccount w s = (Inr sub, s1)"
  shows "ensureSubAccount w s1 = (Inr sub, s1) \<and>
         subAccount s1 = Some sub \<and>
         (trace (snd (ensureSubAccount w s1)) = trace s \<or>
          trace (snd (ensureSubAccount w s1)) =
            trace s @ [Wallet_getSubAccounts (universalAddress s) (window_origin w)] \<or>
          trace (snd (ensureSubAccount w s1)) =
            trace s @ [Wallet_getSubAccounts (universalAddress s) (window_origin w),
                       Wallet_addSubAccount])"
proof -
  from assms have c: "subAccount s1 = Some sub" by (rule ensureSubAccount_Inr)
  then have again: "ensureSubAccount w s1 = (Inr sub, s1)" by (rule ensureSubAccount_cached)
  from ensureSubAccount_trace [of w s] assms c again show ?thesis by simp
qed

theorem ensureSubAccount_idempotent_witness:
  "ensureSubAccount example_world (snd (ensureSubAccount example_world initial_service)) =
     ensureSubAccount example_world initial_service \<and>
   fst (ensureSubAccount example_world initial_service) =
     Inr \<lparr> address = js ''0x2222222222222222222222222222222222222222'' \<rparr>"
  using ensureSubAccount_idempotent [OF example_ensureSubAccount] example_ensureSubAccount
  by simp

text \<open>
  Claim C9: once a sub-account is cached, \<open>ensureSubAccount()\<close>,
  \<open>sendTransactionFromSub()\<close>, \<open>sendTxViaEthRpc()\<close> and \<open>getSubAccountAddress()\<close>
  leave the cached sub-account as it is, whatever the provider answers; and
  \<open>connectWallet()\<close> can replace it (there is a provider whose answer does).
\<close>

theorem cached_subAccount_kept:
  assumes "subAccount s = Some a"
  shows "subAccount (snd (ensureSubAccount w s)) = Some a \<and>
         subAccount (snd (sendTransactionFromSub w to data val s)) = Some a \<and>
         subAccount (snd (sendTxViaEthRpc w to data val s)) = Some a \<and>
         subAccount (snd (getSubAccountAddress w s)) = Some a \<and>
         (\<exists>w' :: unit world. subAccount (snd (connectWallet w' s)) \<noteq> Some a)"
proof -
  have e: "ensureSubAccount w s = (Inr a, s)" using assms by (rule ensureSubAccount_cached)
  let ?w = "example_world\<lparr> requestAccounts_reply := (\<lambda>tr. Inr [[], 0 # address a]) \<rparr>"
  have "subAccount (snd (connectWallet ?w s)) = Some \<lparr> address = 0 # address a \<rparr>"
    by (simp add: connectWallet_def Let_def)
  moreover have "\<lparr> address = 0 # address a \<rparr> \<noteq> a"
    by (cases a) simp
  ultimately have "subAccount (snd (connectWallet ?w s)) \<noteq> Some a" by simp
  then have "\<exists>w' :: unit world. subAccount (snd (connectWallet w' s)) \<noteq> Some a" ..
  then show ?thesis
    using assms
    by (simp add: e sendTransactionFromSub_def sendTxViaEthRpc_def getSubAccountAddress_def
        Let_def)
qed

theorem cached_subAccount_kept_witness:
  "subAccount (snd (ensureSubAccount example_world
      (initial_service\<lparr> subAccount := Some \<lparr> address = js ''0x22'' \<rparr> \<rparr>))) =
     Some \<lparr> address = js ''0x22'' \<rparr> \<and>
   subAccount (snd (sendTransactionFromSub example_world CONTRACT_ADDRESS (js ''0x40c10f19'') None
      (initial_service\<lparr> subAccount := Some \<lparr> address = js ''0x22'' \<rparr> \<rparr>))) =
     Some \<lparr> address = js ''0x22'' \<rparr>"
proof -
  have "subAccount (initial_service\<lparr> subAccount := Some \<lparr> address = js ''0x22'' \<rparr> \<rparr>) =
      Some \<lparr> address = js ''0x22'' \<rparr>"
    by simp
  from cached_subAccount_kept
    [OF this, of example_world CONTRACT_ADDRESS "js ''0x40c10f19''" None]
  show ?thesis by simp
qed

section \<open>Properties of the component\<close>

text \<open>
  Claim C10: the transaction identifier of a dispatch result is the result's
  \<open>txHash\<close> field when the result is an object that has the field with a truthy
  value, otherwise its \<open>hash\<close> field when that is there and truthy, otherwise
  \<open>null\<close>; a result that is \<open>null\<close>, \<open>undefined\<close> or not an object gives
  \<open>null\<close>. The extraction is a total function: it has no error to raise.
\<close>

theorem extract_txHash_ordered:
  "extract_txHash result =
     (case result of
        Obj fs \<Rightarrow>
          (case map_of fs (js ''txHash'') of
             Some v \<Rightarrow>
               if truthy v then v
               else (case map_of fs (js ''hash'') of
                       Some h \<Rightarrow> if truthy h then h else Null
                     | None \<Rightarrow> Null)
           | None \<Rightarrow>
               (case map_of fs (js ''hash'') of
                  Some h \<Rightarrow> if truthy h then h else Null
                | None \<Rightarrow> Null))
      | _ \<Rightarrow> Null) \<and>
   extract_txHash Null = Null \<and> extract_txHash Undefined = Null"
  by (cases result) (simp_all add: extract_txHash_def js_or_def split: option.splits)

text \<open>
  Claim C6: for every observation that has a first weather entry, the metadata is built
  and has exactly the four attributes City, Temperature, Condition, Date, in this order;
  and for Paris, clear sky, and a temperature that prints as \<open>18.5\<close>, the metadata is
  the one of the scenario, the date being the clock's text.
\<close>

theorem build_metadata_shape:
  "(obs_weather obs \<noteq> [] \<longrightarrow>
      (\<exists>m. build_metadata number_text now obs = Inr m \<and>
           map trait_type (attributes m) =
             [js ''City'', js ''Temperature'', js ''Condition'', js ''Date''])) \<and>
   (number_text t = js ''18.5'' \<longrightarrow>
      build_metadata number_text now
        \<lparr> obs_name = js ''Paris'', obs_weather = [js ''clear sky''], obs_main_temp = t \<rparr> =
      Inr \<lparr> name = js ''Weather in Paris'',
            description = js ''Forecast for Paris: clear sky, 18.5'' @ [0xB0] @ js ''C'',
            attributes =
              [\<lparr> trait_type = js ''City'', trait_value = js ''Paris'' \<rparr>,
               \<lparr> trait_type = js ''Temperature'',
                 trait_value = js ''18.5'' @ [0xB0] @ js ''C'' \<rparr>,
               \<lparr> trait_type = js ''Condition'', trait_value = js ''clear sky'' \<rparr>,
               \<lparr> trait_type = js ''Date'', trait_value = now \<rparr>] \<rparr>)"
  by (cases "obs_weather obs") (simp_all add: build_metadata_def degree_C_def js_def)

theorem build_metadata_shape_witness:
  "build_metadata (\<lambda>t :: unit. js ''18.5'') (js ''11/3/2026, 6:42:00 AM'')
        \<lparr> obs_name = js ''Paris'', obs_weather = [js ''clear sky''], obs_main_temp = () \<rparr> =
      Inr \<lparr> name = js ''Weather in Paris'',
            description = js ''Forecast for Paris: clear sky, 18.5'' @ [0xB0] @ js ''C'',
            attributes =
              [\<lparr> trait_type = js ''City'', trait_value = js ''Paris'' \<rparr>,
               \<lparr> trait_type = js ''Temperature'',
                 trait_value = js ''18.5'' @ [0xB0] @ js ''C'' \<rparr>,
               \<lparr> trait_type = js ''Condition'', trait_value = js ''clear sky'' \<rparr>,
               \<lparr> trait_type = js ''Date'', trait_value = js ''11/3/2026, 6:42:00 AM'' \<rparr>] \<rparr> \<and>
   obs_weather \<lparr> obs_name = js ''Paris'', obs_weather = [js ''clear sky''],
                 obs_main_temp = () \<rparr> \<noteq> []"
  using build_metadata_shape
    [of "\<lparr> obs_name = js ''Paris'', obs_weather = [js ''clear sky''], obs_main_temp = () \<rparr>"
      "\<lambda>t :: unit. js ''18.5''" "js ''11/3/2026, 6:42:00 AM''" "()"]
  by simp

lemma getSubAccountAddress_trace:
  "\<exists>es. trace (snd (getSubAccountAddress w s)) = trace s @ es"
  using ensureSubAccount_trace_ex [of w s]
  by (auto simp: getSubAccountAddress_def split: prod.splits sum.splits)

lemma sendTransactionFromSub_trace:
  "\<exists>es. trace (snd (sendTransactionFromSub w to data val s)) = trace s @ es"
  using ensureSubAccount_trace_ex [of w s]
  by (auto simp: sendTransactionFromSub_def Let_def split: prod.splits sum.splits)

lemma getWeather_try_trace:
  "\<exists>es. trace (baseAccount (snd (getWeather_try w c))) =
     trace (baseAccount c) @
       Http_get (weather_url (openWeatherApiKey w) (cityName (city c))) # es"
proof -
  let ?s1 = "send (Http_get (weather_url (openWeatherApiKey w) (cityName (city c))))
    (baseAccount c)"
  have a: "\<And>s2 x. getSubAccountAddress w ?s1 = (x, s2) \<Longrightarrow> \<exists>es. trace s2 = trace ?s1 @ es"
    using getSubAccountAddress_trace [of w ?s1] by simp
  have b: "\<And>s2 s3 x to data. sendTransactionFromSub w to data None s2 = (x, s3)
      \<Longrightarrow> \<exists>es. trace s3 = trace s2 @ es"
    subgoal for s2 s3 x to data
      using sendTransactionFromSub_trace [of w to data None s2] by simp
    done
  show ?thesis
    unfolding getWeather_try_def Let_def
    by (auto split: sum.splits prod.splits dest!: a b)
qed

text \<open>
  Claim C8: with the city input empty, the first thing \<open>getWeather()\<close> sends is the
  HTTP request for the weather, and its query key is \<open>Washington\<close>.
\<close>

theorem empty_city_defaults_to_Washington:
  "\<exists>es. trace (baseAccount (getWeather w (c\<lparr> city := [] \<rparr>))) =
     trace (baseAccount c) @
       Http_get (js ''https://api.openweathermap.org/data/2.5/weather?q=Washington&appid=''
                 @ openWeatherApiKey w @ js ''&units=metric'') # es"
proof -
  let ?c1 = "c\<lparr> city := [], loading := True, txHash := Null, weather := None \<rparr>"
  have u: "weather_url (openWeatherApiKey w) (cityName []) =
    js ''https://api.openweathermap.org/data/2.5/weather?q=Washington&appid=''
                 @ openWeatherApiKey w @ js ''&units=metric''"
    by (simp add: weather_url_def cityName_def trim_def js_def)
  from getWeather_try_trace [of w ?c1]
  obtain es where "trace (baseAccount (snd (getWeather_try w ?c1))) =
     trace (baseAccount c) @ Http_get (weather_url (openWeatherApiKey w) (cityName [])) # es"
    by auto
  then show ?thesis
    unfolding u by (auto simp: getWeather_def Let_def split: prod.splits sum.splits)
qed

lemma getSubAccountAddress_Inr:
  "getSubAccountAddress w s = (Inr a, s1) \<Longrightarrow> subAccount s1 = Some \<lparr> address = a \<rparr>"
  by (auto simp: getSubAccountAddress_def split: prod.splits sum.splits
      dest!: ensureSubAccount_Inr)

section \<open>Properties of the URI encoder\<close>

subsection \<open>Base64\<close>

lemma base64_index_table: "map base64_index base64_alphabet = map Some [0..<64]"
  by (simp add: base64_alphabet_def js_def base64_index_def upt_rec)

lemma length_base64_alphabet: "length base64_alphabet = 64"
  by (simp add: base64_alphabet_def length_js)

lemma base64_index_char: "i < 64 \<Longrightarrow> base64_index (base64_char i) = Some i"
proof -
  assume i: "i < 64"
  then have "base64_index (base64_alphabet ! i) = map base64_index base64_alphabet ! i"
    by (simp add: length_base64_alphabet)
  also have "\<dots> = Some i" using i by (simp only: base64_index_table) simp
  finally show ?thesis using i by (simp add: base64_char_def)
qed

lemma base64_index_pad: "base64_index 0x3D = None"
  by (simp add: base64_index_def)

lemma base64_char_not_pad: "i < 64 \<Longrightarrow> base64_char i \<noteq> 0x3D"
  using base64_index_char [of i] base64_index_pad by auto

lemma sextets:
  fixes a b c :: nat
  assumes "a < 256" "b < 256" "c < 256"
  shows "a div 4 < 64" "a mod 4 * 16 + b div 16 < 64" "b mod 16 * 4 + c div 64 < 64" "c mod 64 < 64"
    "b mod 16 * 4 < 64" "a mod 4 * 16 < 64"
proof -
  have 1: "a mod 4 < 4" "b mod 16 < 16" by simp_all
  have 2: "b div 16 < 16" "c div 64 < 4" "a div 4 < 64"
    using assms by (simp_all add: less_mult_imp_div_less)
  show "a div 4 < 64" by (rule 2)
  show "a mod 4 * 16 + b div 16 < 64" using 1(1) 2(1) by linarith
  show "b mod 16 * 4 + c div 64 < 64" using 1(2) 2(2) by linarith
  show "c mod 64 < 64" by simp
  show "b mod 16 * 4 < 64" using 1(2) by linarith
  show "a mod 4 * 16 < 64" using 1(1) by linarith
qed

lemma base64_roundtrip: "list_all (\<lambda>b. b < 256) bs \<Longrightarrow> base64_decode (base64_encode bs) = Some bs"
proof (induction bs rule: base64_encode.induct)
  case (1 a b c bs)
  then have ab: "a < 256" "b < 256" "c < 256" and IH: "base64_decode (base64_encode bs) = Some bs"
    by simp_all
  have q: "b div 16 < 16" "c div 64 < 4"
    using ab by (simp_all add: less_mult_imp_div_less)
  note i = sextets [OF ab]
  show ?case
    using q by (simp add: base64_index_char base64_char_not_pad IH i)
next
  case (2 a b)
  then have ab: "a < 256" "b < 256" by simp_all
  have q: "b div 16 < 16"
    using ab by (simp_all add: less_mult_imp_div_less)
  note i = sextets [OF ab ab(1)]
  show ?case
    using q by (simp add: base64_index_char base64_char_not_pad i)
next
  case (3 a)
  then have ab: "a < 256" by simp
  note i = sextets [OF ab ab ab]
  show ?case
    by (simp add: base64_index_char i)
next
  case 4
  show ?case by simp
qed

subsection \<open>UTF-8\<close>

lemma append_single: "(@) [x] = (#) x"
  by (rule ext) simp

lemma utf8_decode_1:
  "b < 0x80 \<Longrightarrow> utf8_decode (b # rest) = map_option ((@) (code_point_units b)) (utf8_decode rest)"
  by (simp add: code_point_units_def append_single)

lemma utf8_decode_2:
  assumes "2 \<le> q" "q < 32" "r < 64"
  shows "utf8_decode ((0xC0 + q) # (0x80 + r) # rest) =
    map_option ((@) (code_point_units (q * 0x40 + r))) (utf8_decode rest)"
  using assms by (simp add: is_continuation_def)

lemma utf8_decode_3:
  assumes "q < 16" "r2 < 64" "r1 < 64" "0x800 \<le> q * 0x1000 + r2 * 0x40 + r1"
    "\<not> (0xD800 \<le> q * 0x1000 + r2 * 0x40 + r1 \<and> q * 0x1000 + r2 * 0x40 + r1 < 0xE000)"
  shows "utf8_decode ((0xE0 + q) # (0x80 + r2) # (0x80 + r1) # rest) =
    map_option ((@) (code_point_units (q * 0x1000 + r2 * 0x40 + r1))) (utf8_decode rest)"
  using assms by (simp add: is_continuation_def Let_def)

lemma utf8_decode_4:
  assumes "q < 5" "r3 < 64" "r2 < 64" "r1 < 64" "0x10000 \<le> q * 0x40000 + r3 * 0x1000 + r2 * 0x40 + r1"
    "q * 0x40000 + r3 * 0x1000 + r2 * 0x40 + r1 < 0x110000"
  shows "utf8_decode ((0xF0 + q) # (0x80 + r3) # (0x80 + r2) # (0x80 + r1) # rest) =
    map_option ((@) (code_point_units (q * 0x40000 + r3 * 0x1000 + r2 * 0x40 + r1))) (utf8_decode rest)"
  using assms by (simp add: is_continuation_def Let_def)

declare utf8_decode.simps(2) [simp del]

lemma utf8_decode_octets:
  assumes "cp < 0x110000" and "\<not> (0xD800 \<le> cp \<and> cp < 0xE000)"
  shows "utf8_decode (utf8_octets cp @ rest) =
    map_option ((@) (code_point_units cp)) (utf8_decode rest)"
proof -
  define r1 q1 r2 q2 r3 q3 where "r1 = cp mod 64" and "q1 = cp div 64"
    and "r2 = q1 mod 64" and "q2 = q1 div 64" and "r3 = q2 mod 64" and "q3 = q2 div 64"
  have e: "cp = q1 * 64 + r1" "q1 = q2 * 64 + r2" "q2 = q3 * 64 + r3"
    by (simp_all add: r1_def q1_def r2_def q2_def r3_def q3_def)
  have b: "r1 < 64" "r2 < 64" "r3 < 64"
    by (simp_all add: r1_def r2_def r3_def)
  have "cp div (64 * 64) = q2" "cp div (64 * 64 * 64) = q3"
    by (simp_all only: div_mult2_eq q1_def q2_def q3_def)
  then have d: "cp div 0x1000 = q2" "cp div 0x40000 = q3" by simp_all
  have m: "cp div 0x40 = q1" "cp mod 0x40 = r1" by (simp_all add: q1_def r1_def)
  have m': "q1 mod 0x40 = r2" "q2 mod 0x40 = r3" by (simp_all add: r2_def r3_def)
  consider "cp < 0x80" | "0x80 \<le> cp" "cp < 0x800" | "0x800 \<le> cp" "cp < 0x10000" | "0x10000 \<le> cp"
    by linarith
  then show ?thesis
  proof cases
    case 1
    then show ?thesis by (simp add: utf8_octets_def utf8_decode_1)
  next
    case 2
    have o: "utf8_octets cp = [0xC0 + q1, 0x80 + r1]"
      using 2 by (simp add: utf8_octets_def m)
    have "2 \<le> q1" "q1 < 32" using 2 e(1) b(1) by linarith+
    then have "utf8_decode ((0xC0 + q1) # (0x80 + r1) # rest) =
      map_option ((@) (code_point_units (q1 * 0x40 + r1))) (utf8_decode rest)"
      using b(1) by (rule utf8_decode_2)
    then show ?thesis using e(1) [symmetric] by (simp add: o)
  next
    case 3
    have o: "utf8_octets cp = [0xE0 + q2, 0x80 + r2, 0x80 + r1]"
      using 3 by (simp add: utf8_octets_def m d m')
    have c: "cp = q2 * 0x1000 + r2 * 0x40 + r1" using e by linarith
    have "q2 < 16" using 3 c by linarith
    then have "utf8_decode ((0xE0 + q2) # (0x80 + r2) # (0x80 + r1) # rest) =
      map_option ((@) (code_point_units (q2 * 0x1000 + r2 * 0x40 + r1))) (utf8_decode rest)"
      using b(2) b(1) 3(1) assms(2) unfolding c by (rule utf8_decode_3)
    then show ?thesis using c [symmetric] by (simp add: o)
  next
    case 4
    have o: "utf8_octets cp = [0xF0 + q3, 0x80 + r3, 0x80 + r2, 0x80 + r1]"
      using 4 by (simp add: utf8_octets_def m d m')
    have c: "cp = q3 * 0x40000 + r3 * 0x1000 + r2 * 0x40 + r1" using e by linarith
    have "q3 < 5" using assms(1) c by linarith
    then have "utf8_decode ((0xF0 + q3) # (0x80 + r3) # (0x80 + r2) # (0x80 + r1) # rest) =
      map_option ((@) (code_point_units (q3 * 0x40000 + r3 * 0x1000 + r2 * 0x40 + r1)))
        (utf8_decode rest)"
      using b(3) b(2) b(1) 4 assms(1) unfolding c by (rule utf8_decode_4)
    then show ?thesis using c [symmetric] by (simp add: o)
  qed
qed

lemma surrogate_nat:
  "is_high_surrogate c \<longleftrightarrow> 0xD800 \<le> unat c \<and> unat c \<le> 0xDBFF"
  "is_low_surrogate c \<longleftrightarrow> 0xDC00 \<le> unat c \<and> unat c \<le> 0xDFFF"
  "is_surrogate c \<longleftrightarrow> 0xD800 \<le> unat c \<and> unat c \<le> 0xDFFF"
  by (simp_all add: is_high_surrogate_def is_low_surrogate_def is_surrogate_def word_le_nat_alt)

lemma unat_code_unit_less: "unat (c :: code_unit) < 0x10000"
  using unsigned_less [of c, where 'a = nat] by simp

lemma code_point_units_unit: "code_point_units (unat (c :: code_unit)) = [c]"
  using unat_code_unit_less [of c] by (simp add: code_point_units_def)

lemma pair_code_point_split:
  assumes "is_high_surrogate hi" and "is_low_surrogate lo"
  shows "pair_code_point hi lo = 0x10000 + ((unat hi - 0xD800) * 0x400 + (unat lo - 0xDC00))"
    and "unat lo - 0xDC00 < 0x400" and "unat hi - 0xD800 < 0x400"
    and "0xD800 + (unat hi - 0xD800) = unat hi" and "0xDC00 + (unat lo - 0xDC00) = unat lo"
  using assms unfolding pair_code_point_def surrogate_nat by linarith+

lemma pair_code_point_range:
  assumes "is_high_surrogate hi" and "is_low_surrogate lo"
  shows "0x10000 \<le> pair_code_point hi lo" and "pair_code_point hi lo < 0x110000"
  using pair_code_point_split [OF assms] by linarith+

lemma code_point_units_pair:
  assumes "is_high_surrogate hi" and "is_low_surrogate lo"
  shows "code_point_units (pair_code_point hi lo) = [hi, lo]"
proof -
  note s = pair_code_point_split [OF assms]
  have d: "((unat hi - 0xD800) * 0x400 + (unat lo - 0xDC00)) div 0x400 = unat hi - 0xD800"
    using s(2) by simp
  have m: "((unat hi - 0xD800) * 0x400 + (unat lo - 0xDC00)) mod 0x400 = unat lo - 0xDC00"
    using s(2) by simp
  have "code_point_units (0x10000 + x) =
      [of_nat (0xD800 + x div 0x400), of_nat (0xDC00 + x mod 0x400)]" for x
    by (simp add: code_point_units_def)
  then have "code_point_units (pair_code_point hi lo) =
    [of_nat (0xD800 + (unat hi - 0xD800)), of_nat (0xDC00 + (unat lo - 0xDC00))]"
    by (simp only: s(1) d m)
  then show ?thesis by (simp only: s(4) s(5)) simp
qed

lemma utf8_roundtrip: "well_formed t \<Longrightarrow> utf8_decode (utf8_encode t) = Some t"
proof (induction t rule: utf8_encode.induct)
  case 1
  show ?case by simp
next
  case (2 c)
  then have s: "\<not> is_surrogate c" by simp
  have "utf8_decode (utf8_octets (unat c) @ []) =
    map_option ((@) (code_point_units (unat c))) (utf8_decode [])"
    using unat_code_unit_less [of c] s by (intro utf8_decode_octets) (auto simp: surrogate_nat)
  then show ?case using s by (simp add: code_point_units_unit)
next
  case (3 c1 c2 cs)
  show ?case
  proof (cases "is_high_surrogate c1 \<and> is_low_surrogate c2")
    case True
    then have h: "is_high_surrogate c1" and l: "is_low_surrogate c2" by simp_all
    from 3(3) True have "well_formed cs" by simp
    then have IH: "utf8_decode (utf8_encode cs) = Some cs" using 3(1) True by simp
    have "utf8_decode (utf8_octets (pair_code_point c1 c2) @ utf8_encode cs) =
      map_option ((@) (code_point_units (pair_code_point c1 c2))) (utf8_decode (utf8_encode cs))"
      using pair_code_point_range [OF h l] by (intro utf8_decode_octets) simp_all
    then show ?thesis using True by (simp add: IH code_point_units_pair)
  next
    case False
    with 3(3) have s: "\<not> is_surrogate c1" and w: "well_formed (c2 # cs)" by simp_all
    have IH: "utf8_decode (utf8_encode (c2 # cs)) = Some (c2 # cs)" using 3(2) False w by simp
    have "utf8_decode (utf8_octets (unat c1) @ utf8_encode (c2 # cs)) =
      map_option ((@) (code_point_units (unat c1))) (utf8_decode (utf8_encode (c2 # cs)))"
      using unat_code_unit_less [of c1] s by (intro utf8_decode_octets) (auto simp: surrogate_nat)
    moreover have "\<not> is_high_surrogate c1" using s by (auto simp: surrogate_nat)
    ultimately show ?thesis using s by (simp add: IH code_point_units_unit)
  qed
qed

subsection \<open>The percent escapes\<close>

lemma replace_percent_cons: "c \<noteq> 0x25 \<Longrightarrow> replace_percent (c # rest) = c # replace_percent rest"
proof (cases rest)
  case Nil
  then show ?thesis by simp
next
  case (Cons h1 r1)
  assume "c \<noteq> 0x25"
  then show ?thesis using Cons by (cases r1) simp_all
qed

lemma unat_hex_digit_upper:
  "d < 16 \<Longrightarrow> unat (hex_digit_upper d) = (if d < 10 then 48 + d else 55 + d)"
  by (simp add: hex_digit_upper_def unat_code_unit del: of_nat_add)

lemma upper_hex_digit:
  assumes "d < 16"
  shows "is_upper_hex (hex_digit_upper d)" and "upper_hex_value (hex_digit_upper d) = d"
  using assms
  by (simp_all add: is_upper_hex_def upper_hex_value_def word_le_nat_alt unat_hex_digit_upper)

lemma replace_percent_octet:
  assumes "b < 256"
  shows "replace_percent (percent_octet b @ rest) = of_nat b # replace_percent rest"
proof -
  have d: "b div 16 < 16" "b mod 16 < 16" using assms by (simp_all add: less_mult_imp_div_less)
  show ?thesis
    by (simp add: percent_octet_def upper_hex_digit [OF d(1)] upper_hex_digit [OF d(2)])
qed

lemma replace_percent_octets:
  "list_all (\<lambda>b. b < 256) bs \<Longrightarrow>
     replace_percent (percent_octets bs @ rest) = map of_nat bs @ replace_percent rest"
  by (induction bs) (simp_all add: percent_octets_def replace_percent_octet)

lemma utf8_octets_bytes: "cp < 0x110000 \<Longrightarrow> list_all (\<lambda>b. b < 256) (utf8_octets cp)"
proof -
  assume a: "cp < 0x110000"
  have m: "cp mod 0x40 < 0x40" "cp div 0x40 mod 0x40 < 0x40" "cp div 0x1000 mod 0x40 < 0x40"
    by simp_all
  have "cp < 0x800 \<Longrightarrow> cp div 0x40 < 0x20" "cp < 0x10000 \<Longrightarrow> cp div 0x1000 < 0x10"
    "cp div 0x40000 < 5"
    using a by (simp_all add: less_mult_imp_div_less)
  with m show ?thesis
    unfolding utf8_octets_def by (auto simp del: mod_less_divisor)
qed

lemma unreserved_ascii:
  assumes "uri_unreserved c"
  shows "unat c < 0x80" and "c \<noteq> 0x25" and "\<not> is_surrogate c" and "\<not> is_high_surrogate c"
  using assms
  by (auto simp: uri_unreserved_def js_def surrogate_nat word_le_nat_alt)

lemma encode_then_replace:
  "well_formed t \<Longrightarrow>
     \<exists>e. encodeURIComponent t = Inr e \<and>
         (\<forall>rest. replace_percent (e @ rest) = map of_nat (utf8_encode t) @ replace_percent rest)"
proof (induction t rule: encodeURIComponent.induct)
  case 1
  show ?case by simp
next
  case (2 c)
  then have s: "\<not> is_surrogate c" by simp
  show ?case
  proof (cases "uri_unreserved c")
    case True
    from unreserved_ascii [OF True] show ?thesis
      using True by (simp add: replace_percent_cons utf8_octets_def)
  next
    case False
    have "list_all (\<lambda>b. b < 256) (utf8_octets (unat c))"
      using unat_code_unit_less [of c] by (intro utf8_octets_bytes) simp
    then show ?thesis using False s by (simp add: replace_percent_octets)
  qed
next
  case (3 c1 c2 cs)
  show ?case
  proof (cases "uri_unreserved c1")
    case True
    note u = unreserved_ascii [OF True]
    from 3(4) u have "well_formed (c2 # cs)" by simp
    with 3(1) True obtain e where e: "encodeURIComponent (c2 # cs) = Inr e"
      "\<And>rest. replace_percent (e @ rest) = map of_nat (utf8_encode (c2 # cs)) @ replace_percent rest"
      by blast
    show ?thesis
      using True u by (simp add: e prepend_def replace_percent_cons utf8_octets_def)
  next
    case False
    show ?thesis
    proof (cases "is_high_surrogate c1 \<and> is_low_surrogate c2")
      case True
      then have h: "is_high_surrogate c1" and l: "is_low_surrogate c2" by simp_all
      from 3(4) True have "well_formed cs" by simp
      with 3(2) False True obtain e where e: "encodeURIComponent cs = Inr e"
        "\<And>rest. replace_percent (e @ rest) = map of_nat (utf8_encode cs) @ replace_percent rest"
        by blast
      have "list_all (\<lambda>b. b < 256) (utf8_octets (pair_code_point c1 c2))"
        using pair_code_point_range [OF h l] by (intro utf8_octets_bytes)
      then show ?thesis
        using False True by (simp add: e prepend_def replace_percent_octets)
    next
      case nopair: False
      with 3(4) have s: "\<not> is_surrogate c1" and w: "well_formed (c2 # cs)" by simp_all
      have nh: "\<not> is_high_surrogate c1" using s by (auto simp: surrogate_nat)
      from 3(3) False nopair s w obtain e where e: "encodeURIComponent (c2 # cs) = Inr e"
        "\<And>rest. replace_percent (e @ rest) =
           map of_nat (utf8_encode (c2 # cs)) @ replace_percent rest"
        by blast
      have "list_all (\<lambda>b. b < 256) (utf8_octets (unat c1))"
        using unat_code_unit_less [of c1] by (intro utf8_octets_bytes) simp
      then show ?thesis
        using False nh s by (simp add: e prepend_def replace_percent_octets)
    qed
  qed
qed

lemma utf8_encode_bytes: "list_all (\<lambda>b. b < 256) (utf8_encode t)"
proof (induction t rule: utf8_encode.induct)
  case 1
  show ?case by simp
next
  case (2 c)
  have "list_all (\<lambda>b. b < 256) (utf8_octets (unat c))"
    using unat_code_unit_less [of c] by (intro utf8_octets_bytes) simp
  moreover have "list_all (\<lambda>b. b < 256) (utf8_octets 0xFFFD)"
    by (intro utf8_octets_bytes) simp
  ultimately show ?case by simp
next
  case (3 c1 c2 cs)
  have a: "list_all (\<lambda>b. b < 256) (utf8_octets (unat c1))"
    using unat_code_unit_less [of c1] by (intro utf8_octets_bytes) simp
  have b: "list_all (\<lambda>b. b < 256) (utf8_octets 0xFFFD)"
    by (intro utf8_octets_bytes) simp
  show ?case
  proof (cases "is_high_surrogate c1 \<and> is_low_surrogate c2")
    case True
    then have "list_all (\<lambda>b. b < 256) (utf8_octets (pair_code_point c1 c2))"
      using pair_code_point_range [of c1 c2] by (intro utf8_octets_bytes) simp
    with True 3 show ?thesis by simp
  next
    case False
    with 3 a b show ?thesis by auto
  qed
qed

lemma btoa_bytes:
  assumes "list_all (\<lambda>b. b < 256) bs"
  shows "btoa (map of_nat bs) = Inr (base64_encode bs)"
proof -
  have "\<And>b. b < 256 \<Longrightarrow> (of_nat b :: code_unit) \<le> 0xFF \<and> unat (of_nat b :: code_unit) = b"
    by (simp add: word_le_nat_alt unat_code_unit)
  with assms have "list_all (\<lambda>c. c \<le> 0xFF) (map of_nat bs :: jsstring)"
    "map unat (map of_nat bs :: jsstring) = bs"
    by (induction bs) simp_all
  then show ?thesis by (simp add: btoa_def)
qed

subsection \<open>JSON strings\<close>

lemma well_formed_cons: "\<not> is_surrogate c \<Longrightarrow> well_formed (c # xs) = well_formed xs"
proof (cases xs)
  case Nil
  assume "\<not> is_surrogate c" then show ?thesis using Nil by simp
next
  case (Cons y ys)
  assume s: "\<not> is_surrogate c"
  then have "\<not> is_high_surrogate c" by (auto simp: surrogate_nat)
  with s show ?thesis using Cons by simp
qed

lemma well_formed_plain_append:
  "list_all (\<lambda>c. \<not> is_surrogate c) xs \<Longrightarrow> well_formed (xs @ ys) = well_formed ys"
  by (induction xs) (simp_all add: well_formed_cons)

lemma well_formed_append: "well_formed xs \<Longrightarrow> well_formed ys \<Longrightarrow> well_formed (xs @ ys)"
proof (induction xs rule: well_formed.induct)
  case 1
  then show ?case by simp
next
  case (2 c)
  then show ?case by (simp add: well_formed_cons)
next
  case (3 c1 c2 cs)
  show ?case
  proof (cases "is_high_surrogate c1 \<and> is_low_surrogate c2")
    case True
    with 3 show ?thesis by simp
  next
    case False
    with 3(3) have s: "\<not> is_surrogate c1" and w: "well_formed (c2 # cs)" by simp_all
    have "well_formed ((c2 # cs) @ ys)" using 3(2) False w 3(4) by simp
    then show ?thesis using well_formed_cons [OF s, of "c2 # cs @ ys"] by simp
  qed
qed

lemma plain_hex_digit_lower: "d < 16 \<Longrightarrow> \<not> is_surrogate (hex_digit_lower d)"
  by (simp add: surrogate_nat unat_hex_digit_lower)

lemma nibbles:
  fixes u :: nat
  assumes "u < 0x10000"
  shows "u div 0x1000 < 0x10" "u div 0x100 mod 0x10 < 0x10" "u div 0x10 mod 0x10 < 0x10"
    "u mod 0x10 < 0x10"
    "16 * (16 * (16 * (u div 0x1000) + u div 0x100 mod 0x10) + u div 0x10 mod 0x10) + u mod 0x10 = u"
proof -
  define q1 r1 q2 r2 q3 r3 where "q1 = u div 16" and "r1 = u mod 16"
    and "q2 = q1 div 16" and "r2 = q1 mod 16" and "q3 = q2 div 16" and "r3 = q2 mod 16"
  have e: "u = q1 * 16 + r1" "q1 = q2 * 16 + r2" "q2 = q3 * 16 + r3"
    by (simp_all add: q1_def r1_def q2_def r2_def q3_def r3_def)
  have "u div (16 * 16) = q2" "u div (16 * 16 * 16) = q3"
    by (simp_all only: div_mult2_eq q1_def q2_def q3_def)
  then have d: "u div 0x100 = q2" "u div 0x1000 = q3" by simp_all
  have d1: "u div 0x10 = q1" "u mod 0x10 = r1" by (simp_all add: q1_def r1_def)
  have m: "q2 mod 0x10 = r3" "q1 mod 0x10 = r2" by (simp_all add: r3_def r2_def)
  have b: "r1 < 16" "r2 < 16" "r3 < 16" by (simp_all add: r1_def r2_def r3_def)
  have q3: "q3 < 16" using assms e by linarith
  show "u div 0x1000 < 0x10" unfolding d by (rule q3)
  show "u div 0x100 mod 0x10 < 0x10" by simp
  show "u div 0x10 mod 0x10 < 0x10" by simp
  show "u mod 0x10 < 0x10" by simp
  show "16 * (16 * (16 * (u div 0x1000) + u div 0x100 mod 0x10) + u div 0x10 mod 0x10) + u mod 0x10 = u"
  proof -
    have "u = ((q3 * 16 + r3) * 16 + r2) * 16 + r1" using e by simp
    then show ?thesis unfolding d d1 m by (simp add: algebra_simps)
  qed
qed

lemma hex_value_unicode_escape:
  "hex_value [hex_digit_lower (unat c div 0x1000), hex_digit_lower (unat c div 0x100 mod 0x10),
      hex_digit_lower (unat c div 0x10 mod 0x10), hex_digit_lower (unat c mod 0x10)]
   = Some (unat (c :: code_unit))"
proof -
  note n = nibbles [OF unat_code_unit_less [of c]]
  show ?thesis
    unfolding hex_value_def
    by (simp only: hex_value_from.simps hex_digit_value_lower [OF n(1)] hex_digit_value_lower [OF n(2)]
        hex_digit_value_lower [OF n(3)] hex_digit_value_lower [OF n(4)] option.case n(5)
        mult_zero_right add_0)
qed

lemma parse_chars_literal:
  "c \<noteq> 0x22 \<Longrightarrow> c \<noteq> 0x5C \<Longrightarrow> \<not> c < 0x20 \<Longrightarrow> parse_chars (c # r) = with_unit c (parse_chars r)"
  by simp

lemma parse_quote_unit: "parse_chars (quote_unit c @ r) = with_unit c (parse_chars r)"
proof (cases "c < 0x20 \<or> is_surrogate c")
  case True
  have esc: "parse_chars (unicode_escape c @ r) = with_unit c (parse_chars r)"
    using hex_value_unicode_escape [of c] by (simp add: unicode_escape_def)
  from True have "c \<noteq> 0x22" "c \<noteq> 0x5C" by (auto simp: surrogate_nat)
  then show ?thesis
    using True by (simp add: quote_unit_def esc simple_escape_def)
next
  case False
  then show ?thesis by (simp add: quote_unit_def simple_escape_def)
qed

declare parse_chars.simps(2) [simp del]

lemma parse_quote_chars: "parse_chars (quote_chars s @ 0x22 # rest) = Some (s, rest)"
proof (induction s rule: quote_chars.induct)
  case 1
  show ?case by (simp add: parse_chars.simps)
next
  case (2 c)
  show ?case by (simp add: parse_quote_unit with_unit_def parse_chars.simps)
next
  case (3 c1 c2 cs)
  show ?case
  proof (cases "is_high_surrogate c1 \<and> is_low_surrogate c2")
    case True
    then have "c1 \<noteq> 0x22" "c1 \<noteq> 0x5C" "\<not> c1 < 0x20" "c2 \<noteq> 0x22" "c2 \<noteq> 0x5C" "\<not> c2 < 0x20"
      by (auto simp: surrogate_nat word_less_nat_alt)
    then show ?thesis using True 3
      by (simp add: parse_chars_literal with_unit_def)
  next
    case False
    then have q: "quote_chars (c1 # c2 # cs) = quote_unit c1 @ quote_chars (c2 # cs)" by auto
    from 3(2) False show ?thesis
      unfolding q by (simp add: parse_quote_unit with_unit_def)
  qed
qed

lemma parse_QuoteJSONString:
  "parse_chars (tl (QuoteJSONString s) @ rest) = Some (s, rest)"
  by (simp add: QuoteJSONString_def parse_quote_chars)

lemma plain_quote_unit: "list_all (\<lambda>c. \<not> is_surrogate c) (quote_unit c)"
proof -
  note n = nibbles [OF unat_code_unit_less [of c]]
  have k: "\<not> is_surrogate 0x5C" "\<not> is_surrogate 0x75" by (simp_all add: is_surrogate_def)
  have "list_all (\<lambda>c. \<not> is_surrogate c) (unicode_escape c)"
    unfolding unicode_escape_def
    using k plain_hex_digit_lower [OF n(1)] plain_hex_digit_lower [OF n(2)]
      plain_hex_digit_lower [OF n(3)] plain_hex_digit_lower [OF n(4)]
    by simp
  then show ?thesis by (auto simp: quote_unit_def surrogate_nat)
qed

lemma well_formed_quote_chars: "well_formed (quote_chars s)"
proof (induction s rule: quote_chars.induct)
  case 1
  show ?case by simp
next
  case (2 c)
  from well_formed_plain_append [OF plain_quote_unit, of c "[]"] show ?case by simp
next
  case (3 c1 c2 cs)
  then show ?case by (simp add: well_formed_plain_append [OF plain_quote_unit])
qed

lemma well_formed_QuoteJSONString: "well_formed (QuoteJSONString s)"
  by (simp add: QuoteJSONString_def well_formed_cons surrogate_nat well_formed_append
      well_formed_quote_chars)

subsection \<open>JSON texts\<close>

lemma plain_well_formed: "list_all (\<lambda>c. \<not> is_surrogate c) xs \<Longrightarrow> well_formed xs"
  using well_formed_plain_append [of xs "[]"] by simp

lemma well_formed_join_comma:
  "(\<And>x. x \<in> set xs \<Longrightarrow> well_formed x) \<Longrightarrow> well_formed (join_comma xs)"
proof (induction xs rule: join_comma.induct)
  case 1
  show ?case by simp
next
  case (2 x)
  then show ?case by simp
next
  case (3 x y zs)
  have "well_formed (0x2C # join_comma (y # zs))"
    using 3 by (simp add: well_formed_cons is_surrogate_def)
  with 3(2) [of x] show ?case by (simp add: well_formed_append)
qed

lemma well_formed_brackets:
  "\<not> is_surrogate a \<Longrightarrow> \<not> is_surrogate b \<Longrightarrow> well_formed xs \<Longrightarrow> well_formed (a # xs @ [b])"
  by (simp add: well_formed_cons well_formed_append)

lemma well_formed_JSON_stringify: "well_formed (JSON_stringify v)"
proof (induction v rule: JSON_stringify.induct)
  case 1
  show ?case by (rule plain_well_formed) (simp add: js_def is_surrogate_def)
next
  case (2 b)
  show ?case by (cases b; simp; rule plain_well_formed; simp add: js_def is_surrogate_def)
next
  case (3 s)
  show ?case by (simp add: well_formed_QuoteJSONString)
next
  case (4 vs)
  then have "well_formed (join_comma (map JSON_stringify vs))"
    by (intro well_formed_join_comma) auto
  then show ?case by (simp add: well_formed_brackets is_surrogate_def)
next
  case (5 ms)
  have "well_formed (join_comma
      (map (\<lambda>kv. QuoteJSONString (fst kv) @ 0x3A # JSON_stringify (snd kv)) ms))"
  proof (intro well_formed_join_comma)
    fix x assume "x \<in> set (map (\<lambda>kv. QuoteJSONString (fst kv) @ 0x3A # JSON_stringify (snd kv)) ms)"
    then obtain kv where kv: "kv \<in> set ms"
      and x: "x = QuoteJSONString (fst kv) @ 0x3A # JSON_stringify (snd kv)" by auto
    have "well_formed (JSON_stringify (snd kv))" using 5 [OF kv] .
    then show "well_formed x"
      unfolding x
      by (intro well_formed_append well_formed_QuoteJSONString)
        (simp add: well_formed_cons is_surrogate_def)
  qed
  then show ?case by (simp add: well_formed_brackets is_surrogate_def)
qed

lemma parse_value_object:
  "take 1 r \<noteq> [0x7D] \<Longrightarrow>
     parse_value (Suc n) (0x7B # r) =
       (case parse_members n r of None \<Rightarrow> None | Some (ms, r') \<Rightarrow> Some (JObject ms, r'))"
  by simp

lemma parse_value_array:
  "take 1 r \<noteq> [0x5D] \<Longrightarrow>
     parse_value (Suc n) (0x5B # r) =
       (case parse_elements n r of None \<Rightarrow> None | Some (vs, r') \<Rightarrow> Some (JArray vs, r'))"
  by simp

lemma parse_value_empty_array: "parse_value (Suc n) (0x5B # 0x5D # r) = Some (JArray [], r)"
  by simp

lemma parse_elements_last:
  "parse_value n s = Some (v, 0x5D # r) \<Longrightarrow> parse_elements (Suc n) s = Some ([v], r)"
  by simp

lemma parse_elements_more:
  "parse_value n s = Some (v, 0x2C # r) \<Longrightarrow>
     parse_elements (Suc n) s =
       (case parse_elements n r of None \<Rightarrow> None | Some (vs, r') \<Rightarrow> Some (v # vs, r'))"
  by simp

lemma QuoteJSONString_cons: "QuoteJSONString s @ rest = 0x22 # quote_chars s @ 0x22 # rest"
  by (simp add: QuoteJSONString_def)

lemma parse_value_string:
  "parse_value (Suc n) (QuoteJSONString s @ rest) = Some (JString s, rest)"
  by (simp add: QuoteJSONString_cons parse_quote_chars)

lemma parse_members_last:
  assumes "parse_value n (V @ 0x7D # rest) = Some (v, 0x7D # rest)"
  shows "parse_members (Suc n) (QuoteJSONString k @ 0x3A # V @ 0x7D # rest) = Some ([(k, v)], rest)"
proof -
  have "parse_chars (quote_chars k @ 0x22 # 0x3A # V @ 0x7D # rest) = Some (k, 0x3A # V @ 0x7D # rest)"
    by (rule parse_quote_chars)
  then show ?thesis using assms by (simp add: QuoteJSONString_cons)
qed

lemma parse_members_more:
  assumes "parse_value n (V @ 0x2C # nxt) = Some (v, 0x2C # nxt)"
  shows "parse_members (Suc n) (QuoteJSONString k @ 0x3A # V @ 0x2C # nxt) =
    (case parse_members n nxt of None \<Rightarrow> None | Some (ms, r) \<Rightarrow> Some ((k, v) # ms, r))"
proof -
  have "parse_chars (quote_chars k @ 0x22 # 0x3A # V @ 0x2C # nxt) = Some (k, 0x3A # V @ 0x2C # nxt)"
    by (rule parse_quote_chars)
  then show ?thesis using assms by (simp add: QuoteJSONString_cons)
qed

declare parse_value.simps [simp del] parse_elements.simps [simp del] parse_members.simps [simp del]

lemma take1_QuoteJSONString: "take 1 (QuoteJSONString s @ r) = [0x22]"
  by (simp add: QuoteJSONString_cons)

lemma attribute_text:
  "JSON_stringify (attribute_json a) @ rest =
     0x7B # QuoteJSONString (js ''trait_type'') @ 0x3A # QuoteJSONString (trait_type a) @ 0x2C #
       QuoteJSONString (js ''value'') @ 0x3A # QuoteJSONString (trait_value a) @ 0x7D # rest"
  by (simp add: attribute_json_def)

lemma parse_value_attribute:
  "parse_value (Suc (Suc (Suc (Suc n)))) (JSON_stringify (attribute_json a) @ rest) =
     Some (attribute_json a, rest)"
proof -
  have m2: "parse_members (Suc (Suc n))
      (QuoteJSONString (js ''value'') @ 0x3A # QuoteJSONString (trait_value a) @ 0x7D # rest) =
      Some ([(js ''value'', JString (trait_value a))], rest)"
    by (rule parse_members_last) (rule parse_value_string)
  have m1: "parse_members (Suc (Suc (Suc n)))
      (QuoteJSONString (js ''trait_type'') @ 0x3A # QuoteJSONString (trait_type a) @ 0x2C #
       QuoteJSONString (js ''value'') @ 0x3A # QuoteJSONString (trait_value a) @ 0x7D # rest) =
      Some ([(js ''trait_type'', JString (trait_type a)), (js ''value'', JString (trait_value a))], rest)"
    by (subst parse_members_more [where v = "JString (trait_type a)"])
      (simp_all only: parse_value_string m2 option.case prod.case)
  show ?thesis
    unfolding attribute_text
    by (subst parse_value_object) (simp_all only: take1_QuoteJSONString m1 attribute_json_def, simp_all)
qed

lemma join_comma_cons:
  "xs \<noteq> [] \<Longrightarrow> join_comma (x # xs) = x @ 0x2C # join_comma xs"
  by (cases xs) simp_all

lemma parse_elements_attributes:
  "as \<noteq> [] \<Longrightarrow>
     parse_elements (length as + 4 + k)
       (join_comma (map (\<lambda>a. JSON_stringify (attribute_json a)) as) @ 0x5D # rest) =
     Some (map attribute_json as, rest)"
proof (induction as)
  case Nil
  then show ?case by simp
next
  case (Cons a as)
  have f: "length (a # as) + 4 + k = Suc (Suc (Suc (Suc (Suc (length as + k)))))" by simp
  show ?case
  proof (cases "as = []")
    case True
    have "parse_value (Suc (Suc (Suc (Suc (length as + k)))))
        (JSON_stringify (attribute_json a) @ 0x5D # rest) = Some (attribute_json a, 0x5D # rest)"
      by (rule parse_value_attribute)
    then have "parse_elements (Suc (Suc (Suc (Suc (Suc (length as + k))))))
        (JSON_stringify (attribute_json a) @ 0x5D # rest) = Some ([attribute_json a], rest)"
      by (rule parse_elements_last)
    then show ?thesis unfolding f using True by simp
  next
    case False
    let ?tl = "join_comma (map (\<lambda>a. JSON_stringify (attribute_json a)) as) @ 0x5D # rest"
    have IH: "parse_elements (Suc (Suc (Suc (Suc (length as + k))))) ?tl = Some (map attribute_json as, rest)"
    proof -
      have g: "length as + 4 + k = Suc (Suc (Suc (Suc (length as + k))))" by simp
      show ?thesis using Cons.IH [OF False] unfolding g .
    qed
    have "parse_value (Suc (Suc (Suc (Suc (length as + k)))))
        (JSON_stringify (attribute_json a) @ 0x2C # ?tl) = Some (attribute_json a, 0x2C # ?tl)"
      by (rule parse_value_attribute)
    then have "parse_elements (Suc (Suc (Suc (Suc (Suc (length as + k))))))
        (JSON_stringify (attribute_json a) @ 0x2C # ?tl) =
        (case parse_elements (Suc (Suc (Suc (Suc (length as + k))))) ?tl of
           None \<Rightarrow> None | Some (vs, r') \<Rightarrow> Some (attribute_json a # vs, r'))"
      by (rule parse_elements_more)
    then show ?thesis
      unfolding f using False by (simp add: IH join_comma_cons)
  qed
qed

lemma parse_value_attributes_array:
  "parse_value (Suc (length as + 4 + k)) (JSON_stringify (JArray (map attribute_json as)) @ rest) =
     Some (JArray (map attribute_json as), rest)"
proof (cases as)
  case Nil
  then show ?thesis using parse_value_empty_array [of "4 + k" rest] by simp
next
  case (Cons a as')
  let ?E = "join_comma (map (\<lambda>a. JSON_stringify (attribute_json a)) as)"
  have t: "JSON_stringify (JArray (map attribute_json as)) @ rest = 0x5B # ?E @ 0x5D # rest"
    by (simp add: comp_def)
  have "?E = JSON_stringify (attribute_json a) @ join_comma (map (\<lambda>a. JSON_stringify (attribute_json a)) as')
      \<or> ?E = JSON_stringify (attribute_json a) @ 0x2C # join_comma (map (\<lambda>a. JSON_stringify (attribute_json a)) as')"
    using Cons by (cases as') simp_all
  then have "take 1 (?E @ 0x5D # rest) = [0x7B]"
    by (auto simp: attribute_json_def)
  then have n: "take 1 (?E @ 0x5D # rest) \<noteq> [0x5D]" by simp
  have "as \<noteq> []" using Cons by simp
  then have "parse_elements (length as + 4 + k) (?E @ 0x5D # rest) = Some (map attribute_json as, rest)"
    by (rule parse_elements_attributes)
  then show ?thesis
    unfolding t by (subst parse_value_array [OF n]) simp
qed

lemma metadata_text:
  "JSON_stringify (metadata_json m) @ rest =
     0x7B # QuoteJSONString (js ''name'') @ 0x3A # QuoteJSONString (name m) @ 0x2C #
       QuoteJSONString (js ''description'') @ 0x3A # QuoteJSONString (description m) @ 0x2C #
       QuoteJSONString (js ''attributes'') @ 0x3A #
       JSON_stringify (JArray (map attribute_json (attributes m))) @ 0x7D # rest"
  by (simp add: metadata_json_def)

lemma parse_value_metadata:
  "parse_value (length (attributes m) + 9 + k) (JSON_stringify (metadata_json m) @ rest) =
     Some (metadata_json m, rest)"
proof -
  define n where "n = length (attributes m) + 4 + k"
  have f: "length (attributes m) + 9 + k = Suc (Suc (Suc (Suc (Suc n))))" by (simp add: n_def)
  let ?A = "JSON_stringify (JArray (map attribute_json (attributes m)))"
  let ?m3 = "QuoteJSONString (js ''attributes'') @ 0x3A # ?A @ 0x7D # rest"
  let ?m2 = "QuoteJSONString (js ''description'') @ 0x3A # QuoteJSONString (description m) @ 0x2C # ?m3"
  let ?m1 = "QuoteJSONString (js ''name'') @ 0x3A # QuoteJSONString (name m) @ 0x2C # ?m2"
  have a: "parse_value (Suc n) (?A @ 0x7D # rest) =
      Some (JArray (map attribute_json (attributes m)), 0x7D # rest)"
    unfolding n_def by (rule parse_value_attributes_array)
  have m3: "parse_members (Suc (Suc n)) ?m3 =
      Some ([(js ''attributes'', JArray (map attribute_json (attributes m)))], rest)"
    using a by (rule parse_members_last)
  have m2: "parse_members (Suc (Suc (Suc n))) ?m2 =
      Some ([(js ''description'', JString (description m)),
             (js ''attributes'', JArray (map attribute_json (attributes m)))], rest)"
    by (subst parse_members_more [where v = "JString (description m)"])
      (simp_all only: parse_value_string m3 option.case prod.case)
  have m1: "parse_members (Suc (Suc (Suc (Suc n)))) ?m1 =
      Some ([(js ''name'', JString (name m)),
             (js ''description'', JString (description m)),
             (js ''attributes'', JArray (map attribute_json (attributes m)))], rest)"
    by (subst parse_members_more [where v = "JString (name m)"])
      (simp_all only: parse_value_string m2 option.case prod.case)
  show ?thesis
    unfolding metadata_text f
    by (subst parse_value_object) (simp_all only: take1_QuoteJSONString m1 metadata_json_def, simp_all)
qed

lemma length_join_comma:
  "(\<And>x. x \<in> set xs \<Longrightarrow> x \<noteq> []) \<Longrightarrow> length xs \<le> length (join_comma xs)"
proof (induction xs rule: join_comma.induct)
  case 1
  show ?case by simp
next
  case (2 x)
  then have "x \<noteq> []" by simp
  then show ?case by (cases x) simp_all
next
  case (3 x y zs)
  then have "length (y # zs) \<le> length (join_comma (y # zs))" by simp
  then show ?case by simp
qed

lemma length_QuoteJSONString: "2 \<le> length (QuoteJSONString s)"
  by (simp add: QuoteJSONString_def)

lemma length_metadata_text:
  "length (attributes m) + 9 \<le> length (JSON_stringify (metadata_json m))"
proof -
  have "length (map (\<lambda>a. JSON_stringify (attribute_json a)) (attributes m)) \<le>
      length (join_comma (map (\<lambda>a. JSON_stringify (attribute_json a)) (attributes m)))"
    by (rule length_join_comma) (auto simp: attribute_json_def)
  then have "length (attributes m) \<le>
      length (JSON_stringify (JArray (map attribute_json (attributes m))))"
    by (simp add: comp_def)
  moreover note length_QuoteJSONString [of "js ''name''"] length_QuoteJSONString [of "name m"]
    length_QuoteJSONString [of "js ''description''"] length_QuoteJSONString [of "description m"]
    length_QuoteJSONString [of "js ''attributes''"]
  ultimately show ?thesis
    using arg_cong [OF metadata_text [of m "[]"], of length]
    by (simp del: JSON_stringify.simps)
qed

lemma JSON_parse_metadata: "JSON_parse (JSON_stringify (metadata_json m)) = Some (metadata_json m)"
proof -
  from length_metadata_text [of m]
  obtain k where k: "length (JSON_stringify (metadata_json m)) = length (attributes m) + 9 + k"
    using le_Suc_ex by blast
  have "parse_value (length (JSON_stringify (metadata_json m))) (JSON_stringify (metadata_json m) @ []) =
      Some (metadata_json m, [])"
    unfolding k by (rule parse_value_metadata)
  then show ?thesis by (simp add: JSON_parse_def)
qed

lemma encodeTokenURI_eq:
  "encodeTokenURI m =
     Inr (data_uri_prefix @ base64_encode (utf8_encode (JSON_stringify (metadata_json m))))"
proof -
  let ?t = "JSON_stringify (metadata_json m)"
  from encode_then_replace [OF well_formed_JSON_stringify, of "metadata_json m"]
  obtain e where e: "encodeURIComponent ?t = Inr e"
    and r: "\<And>rest. replace_percent (e @ rest) = map of_nat (utf8_encode ?t) @ replace_percent rest"
    by blast
  from r [of "[]"] have "replace_percent e = map of_nat (utf8_encode ?t)" by simp
  then have "btoa (replace_percent e) = Inr (base64_encode (utf8_encode ?t))"
    by (simp add: btoa_bytes utf8_encode_bytes)
  then show ?thesis by (simp add: encodeTokenURI_def Let_def e)
qed


text \<open>Every token URI that the encoder produces is made of ASCII characters.\<close>

lemma base64_char_ascii: "base64_char i < 0x80"
proof -
  have "list_all (\<lambda>c. c < 0x80) base64_alphabet"
    by (simp add: base64_alphabet_def js_def)
  moreover have "base64_char i \<in> set base64_alphabet"
    unfolding base64_char_def by (rule nth_mem) (simp add: length_base64_alphabet)
  ultimately show ?thesis by (simp add: list_all_iff)
qed

lemma is_ascii_base64_encode: "is_ascii (base64_encode bs)"
  by (induction bs rule: base64_encode.induct) (simp_all add: is_ascii_def base64_char_ascii)

lemma token_uri_is_ascii: "encodeTokenURI m = Inr uri \<Longrightarrow> is_ascii uri"
proof -
  assume "encodeTokenURI m = Inr uri"
  then have u: "uri = data_uri_prefix @ base64_encode (utf8_encode (JSON_stringify (metadata_json m)))"
    by (simp add: encodeTokenURI_eq)
  have "is_ascii data_uri_prefix" by (simp add: is_ascii_def data_uri_prefix_def js_def)
  then show ?thesis
    using is_ascii_base64_encode [of "utf8_encode (JSON_stringify (metadata_json m))"]
    unfolding u by (simp add: is_ascii_def)
qed

text \<open>
  Claim C1: for every metadata, and so for the metadata built from any weather
  observation, the token URI is produced (no step of the encoding raises), and reading
  it back (the prefix removed, the payload base64-decoded, the bytes decoded as UTF-8,
  the text parsed as JSON) gives the object the component serialised. The strings are
  arbitrary sequences of UTF-16 code units, so the condition text may hold any
  character outside ASCII, and unpaired surrogates too.
\<close>

theorem token_uri_roundtrip:
  "\<exists>uri. encodeTokenURI m = Inr uri \<and> decodeTokenURI uri = Some (metadata_json m)"
proof -
  let ?t = "JSON_stringify (metadata_json m)"
  have "decodeTokenURI (data_uri_prefix @ base64_encode (utf8_encode ?t)) = Some (metadata_json m)"
    by (simp add: decodeTokenURI_def base64_roundtrip utf8_encode_bytes utf8_roundtrip
        well_formed_JSON_stringify JSON_parse_metadata)
  then show ?thesis by (simp add: encodeTokenURI_eq)
qed

text \<open>The same at a metadata whose condition text and temperature are not ASCII.\<close>

theorem token_uri_roundtrip_witness:
  "\<exists>uri. encodeTokenURI
       \<lparr> name = js ''Weather in Paris'',
         description = js ''Forecast for Paris: ciel d'' @ [0xE9] @ js ''gag'' @ [0xE9]
           @ js '', 18.5'' @ [0xB0] @ js ''C'',
         attributes = [\<lparr> trait_type = js ''Condition'',
                         trait_value = js ''ciel d'' @ [0xE9] @ js ''gag'' @ [0xE9] \<rparr>] \<rparr> = Inr uri \<and>
     decodeTokenURI uri =
       Some (metadata_json
         \<lparr> name = js ''Weather in Paris'',
           description = js ''Forecast for Paris: ciel d'' @ [0xE9] @ js ''gag'' @ [0xE9]
             @ js '', 18.5'' @ [0xB0] @ js ''C'',
           attributes = [\<lparr> trait_type = js ''Condition'',
                           trait_value = js ''ciel d'' @ [0xE9] @ js ''gag'' @ [0xE9] \<rparr>] \<rparr>)"
  by (rule token_uri_roundtrip)

section \<open>A failed dispatch\<close>

text \<open>
  Claim C7: when the weather was fetched, the metadata and the token URI were built,
  the sub-account's address was resolved, and the provider answers the batched call
  with an error, then \<open>getWeather()\<close> ends with \<open>txHash\<close> null, the error's message
  as the recorded error and \<open>loading\<close> false; the batched call is the last thing
  sent, so no discovery or creation of a sub-account follows the failure, and the
  cached sub-account is the one the call was sent from.
\<close>

theorem dispatch_failure:
  assumes "s1 = send (Http_get (weather_url (openWeatherApiKey w) (cityName (city c)))) (baseAccount c)"
    and "http_reply w (trace s1) = Inr obs"
    and "build_metadata (number_toString w) (toLocaleString_now w (trace s1)) obs = Inr m"
    and "encodeTokenURI m = Inr tokenURI"
    and "getSubAccountAddress w s1 = (Inr subAddress, s2)"
    and "sendCalls_reply w (trace s2 @ [Wallet_sendCalls (mint_calls subAddress tokenURI)]) = Inl err"
  shows "getWeather w c =
           c\<lparr> loading := False, txHash := Null, weather := Some obs, error := Some (message err),
              baseAccount := send (Wallet_sendCalls (mint_calls subAddress tokenURI)) s2 \<rparr> \<and>
         subAccount (baseAccount (getWeather w c)) = Some \<lparr> address = subAddress \<rparr> \<and>
         subAccount s2 = Some \<lparr> address = subAddress \<rparr> \<and>
         filter is_discovery (trace (baseAccount (getWeather w c))) = filter is_discovery (trace s2)"
proof -
  have sub: "subAccount s2 = Some \<lparr> address = subAddress \<rparr>"
    using assms(5) by (rule getSubAccountAddress_Inr)
  then have e: "ensureSubAccount w s2 = (Inr \<lparr> address = subAddress \<rparr>, s2)"
    by (rule ensureSubAccount_cached)
  have d: "sendTransactionFromSub w CONTRACT_ADDRESS (encodeMintCall subAddress tokenURI) None s2 =
      (Inl err, send (Wallet_sendCalls (mint_calls subAddress tokenURI)) s2)"
    using assms(6) by (simp add: sendTransactionFromSub_def e default_value_def mint_calls_def Let_def)
  have t: "getWeather_try w (c\<lparr> loading := True, txHash := Null, weather := None \<rparr>) =
      (Inl err, c\<lparr> loading := True, txHash := Null, weather := Some obs,
                   baseAccount := send (Wallet_sendCalls (mint_calls subAddress tokenURI)) s2 \<rparr>)"
    using assms(2,3,4,5) d unfolding getWeather_try_def Let_def
    by (simp add: assms(1) [symmetric])
  have g: "getWeather w c =
           c\<lparr> loading := False, txHash := Null, weather := Some obs, error := Some (message err),
              baseAccount := send (Wallet_sendCalls (mint_calls subAddress tokenURI)) s2 \<rparr>"
    by (simp add: getWeather_def Let_def t)
  show ?thesis by (simp add: g sub)
qed

lemma ex_uri: "isl (encodeTokenURI m) = False \<Longrightarrow> encodeTokenURI m = Inr (projr (encodeTokenURI m))"
  by (cases "encodeTokenURI m") simp_all

definition "paris_md = \<lparr> name = js ''Weather in Paris'',
            description = js ''Forecast for Paris: clear sky, 18.5'' @ [0xB0] @ js ''C'',
            attributes =
              [\<lparr> trait_type = js ''City'', trait_value = js ''Paris'' \<rparr>,
               \<lparr> trait_type = js ''Temperature'', trait_value = js ''18.5'' @ [0xB0] @ js ''C'' \<rparr>,
               \<lparr> trait_type = js ''Condition'', trait_value = js ''clear sky'' \<rparr>,
               \<lparr> trait_type = js ''Date'', trait_value = js ''11/3/2026, 6:42:00 AM'' \<rparr>] \<rparr>"


theorem dispatch_failure_witness:
  "txHash (getWeather example_world initial_component) = Null \<and>
   error (getWeather example_world initial_component) = Some (js ''insufficient allowance'') \<and>
   loading (getWeather example_world initial_component) = False \<and>
   subAccount (baseAccount (getWeather example_world initial_component)) =
     Some \<lparr> address = js ''0x2222222222222222222222222222222222222222'' \<rparr> \<and>
   filter is_discovery (trace (baseAccount (getWeather example_world initial_component))) =
     [Wallet_getSubAccounts None (js ''https://weather.example''), Wallet_addSubAccount]"
proof -
  define s1 where "s1 = send (Http_get (weather_url (openWeatherApiKey example_world)
    (cityName (city (initial_component :: unit component)))))
    (baseAccount (initial_component :: unit component))"
  define obs :: "unit observation"
    where "obs = \<lparr> obs_name = js ''Paris'', obs_weather = [js ''clear sky''], obs_main_temp = () \<rparr>"
  define s2 where "s2 = s1\<lparr> trace := trace s1 @
      [Wallet_getSubAccounts None (js ''https://weather.example''), Wallet_addSubAccount],
    subAccount := Some \<lparr> address = js ''0x2222222222222222222222222222222222222222'' \<rparr> \<rparr>"
  obtain m where m: "build_metadata (number_toString example_world)
      (toLocaleString_now example_world (trace s1)) obs = Inr m"
    by (simp add: build_metadata_def obs_def)
  have h2: "http_reply example_world (trace s1) = Inr obs"
    by (simp add: example_world_def obs_def)
  have h5: "getSubAccountAddress example_world s1 =
      (Inr (js ''0x2222222222222222222222222222222222222222''), s2)"
    by (simp add: getSubAccountAddress_def ensureSubAccount_def s1_def s2_def send_def
        initial_component_def initial_service_def example_world_def)
  have h6: "sendCalls_reply example_world (trace s2 @ [Wallet_sendCalls
      (mint_calls (js ''0x2222222222222222222222222222222222222222'')
        (data_uri_prefix @ base64_encode (utf8_encode (JSON_stringify (metadata_json m)))))]) =
      Inl (JsError (js ''insufficient allowance''))"
    by (simp add: example_world_def)
  have t: "filter is_discovery (trace s2) =
      [Wallet_getSubAccounts None (js ''https://weather.example''), Wallet_addSubAccount]"
    by (simp add: s2_def s1_def send_def initial_component_def initial_service_def)
  from dispatch_failure [OF s1_def h2 m encodeTokenURI_eq h5 h6] t
  show ?thesis by simp
qed

text \<open>
  When the provider answers the batched call with a result instead, \<open>getWeather()\<close>
  ends with the identifier extracted from the result as \<open>txHash\<close> and records no
  error: the extraction raises nothing.
\<close>

lemma dispatch_success:
  assumes "s1 = send (Http_get (weather_url (openWeatherApiKey w) (cityName (city c)))) (baseAccount c)"
    and "http_reply w (trace s1) = Inr obs"
    and "build_metadata (number_toString w) (toLocaleString_now w (trace s1)) obs = Inr m"
    and "encodeTokenURI m = Inr tokenURI"
    and "getSubAccountAddress w s1 = (Inr subAddress, s2)"
    and "sendCalls_reply w (trace s2 @ [Wallet_sendCalls (mint_calls subAddress tokenURI)]) = Inr result"
  shows "getWeather w c =
           c\<lparr> loading := False, txHash := extract_txHash result, weather := Some obs,
              baseAccount := send (Wallet_sendCalls (mint_calls subAddress tokenURI)) s2 \<rparr>"
proof -
  have sub: "subAccount s2 = Some \<lparr> address = subAddress \<rparr>"
    using assms(5) by (rule getSubAccountAddress_Inr)
  then have e: "ensureSubAccount w s2 = (Inr \<lparr> address = subAddress \<rparr>, s2)"
    by (rule ensureSubAccount_cached)
  have d: "sendTransactionFromSub w CONTRACT_ADDRESS (encodeMintCall subAddress tokenURI) None s2 =
      (Inr result, send (Wallet_sendCalls (mint_calls subAddress tokenURI)) s2)"
    using assms(6) by (simp add: sendTransactionFromSub_def e default_value_def mint_calls_def Let_def)
  have t: "getWeather_try w (c\<lparr> loading := True, txHash := Null, weather := None \<rparr>) =
      (Inr (), c\<lparr> loading := True, txHash := extract_txHash result, weather := Some obs,
                  baseAccount := send (Wallet_sendCalls (mint_calls subAddress tokenURI)) s2 \<rparr>)"
    using assms(2,3,4,5) d unfolding getWeather_try_def Let_def
    by (simp add: assms(1) [symmetric])
  show ?thesis by (simp add: getWeather_def Let_def t)
qed

end
